theory Spec2Isabelle
  imports Complex_Main
begin

section \<open>Complex-step Newton solvers: the data model\<close>

text \<open>
  The development embeds the two Python solvers of \<^verbatim>\<open>cnewton.ipynb\<close>:
  \<^verbatim>\<open>cnewton\<close> (scalar branch and dense vector branch) and \<^verbatim>\<open>cnewtonv\<close>
  (matrix-free Newton-Krylov).

  Numbers. Python floats and complex numbers are idealised as exact numbers: a float is
  a \<^typ>\<open>real\<close>, a value that may be float or complex is a \<^typ>\<open>complex\<close> (a float
  is then a complex number with imaginary part zero). Rounding, overflow, infinities and
  NaN are outside the model. Python integers are \<^typ>\<open>int\<close>.

  Arrays. A one-dimensional numpy array is a list; a two-dimensional array is the list
  of its rows. Only one-dimensional iterates are modelled.

  Exceptions. Every raise of the source is a value \<open>Inl e\<close> of the result type.
\<close>

datatype py_error =
    NameError | TypeError | IndexError | ValueError | ZeroDivisionError | LinAlgError
  | SystemError

type_synonym vec = "complex list"
type_synonym rvec = "real list"
type_synonym mat = "real list list"

text \<open>
  The argument \<^verbatim>\<open>x0\<close> is a dynamically typed Python value. The model keeps the
  classes that matter for the dispatch \<^verbatim>\<open>type(x0)==float or type(x0)==int\<close>.
\<close>

datatype pyval =
    PyFloat real
  | PyInt int
  | PyBool bool
  | PyComplex complex
  | NpFloat64 real
  | PyList vec
  | PyTuple vec
  | NdArray vec

datatype pytype =
    T_float | T_int | T_bool | T_complex | T_float64 | T_list | T_tuple | T_ndarray

fun py_type :: "pyval \<Rightarrow> pytype" where
  "py_type (PyFloat r) = T_float"
| "py_type (PyInt i) = T_int"
| "py_type (PyBool b) = T_bool"
| "py_type (PyComplex z) = T_complex"
| "py_type (NpFloat64 r) = T_float64"
| "py_type (PyList v) = T_list"
| "py_type (PyTuple v) = T_tuple"
| "py_type (NdArray v) = T_ndarray"

text \<open>
  \<^verbatim>\<open>float(x0)\<close>: defined on the numeric scalars; a complex number, a list, a tuple raise
  \<^verbatim>\<open>TypeError\<close>. An array of one real element converts, any other array raises.
  \<^verbatim>\<open>cnewton\<close> calls it on a \<^verbatim>\<open>float\<close> or an \<^verbatim>\<open>int\<close> only.
\<close>

fun py_float :: "pyval \<Rightarrow> py_error + real" where
  "py_float (PyFloat r) = Inr r"
| "py_float (PyInt i) = Inr (of_int i)"
| "py_float (PyBool b) = Inr (if b then 1 else 0)"
| "py_float (NpFloat64 r) = Inr r"
| "py_float (PyComplex z) = Inl TypeError"
| "py_float (PyList v) = Inl TypeError"
| "py_float (PyTuple v) = Inl TypeError"
| "py_float (NdArray v) =
     (case v of [z] \<Rightarrow> if Im z = 0 then Inr (Re z) else Inl TypeError | _ \<Rightarrow> Inl TypeError)"

text \<open>
  \<^verbatim>\<open>list(x0)\<close>: the elements of an iterable; a scalar (numpy scalars included) is not
  iterable and raises \<^verbatim>\<open>TypeError\<close>.
\<close>

fun py_list :: "pyval \<Rightarrow> py_error + vec" where
  "py_list (PyList v) = Inr v"
| "py_list (PyTuple v) = Inr v"
| "py_list (NdArray v) = Inr v"
| "py_list (PyFloat r) = Inl TypeError"
| "py_list (PyInt i) = Inl TypeError"
| "py_list (PyBool b) = Inl TypeError"
| "py_list (PyComplex z) = Inl TypeError"
| "py_list (NpFloat64 r) = Inl TypeError"

subsection \<open>Array primitives\<close>

text \<open>
  \<^verbatim>\<open>a[j]\<close> and \<^verbatim>\<open>a[j] = v\<close> for an index \<open>j\<close> taken from \<^verbatim>\<open>range(n)\<close> (never
  negative): out of range raises \<^verbatim>\<open>IndexError\<close>.
\<close>

definition np_getitem :: "'a list \<Rightarrow> nat \<Rightarrow> py_error + 'a" where
  "np_getitem a j = (if j < length a then Inr (a ! j) else Inl IndexError)"

definition np_setitem :: "'a list \<Rightarrow> nat \<Rightarrow> 'a \<Rightarrow> py_error + 'a list" where
  "np_setitem a j v = (if j < length a then Inr (a[j := v]) else Inl IndexError)"

text \<open>
  An elementwise binary operation on two one-dimensional arrays, with numpy's
  broadcasting: equal lengths combine pointwise, an array of length one is stretched,
  any other pair of lengths raises \<^verbatim>\<open>ValueError\<close>.
\<close>

definition np_binop :: "(complex \<Rightarrow> complex \<Rightarrow> complex) \<Rightarrow> vec \<Rightarrow> vec \<Rightarrow> py_error + vec" where
  "np_binop g a b =
     (if length a = length b then Inr (map2 g a b)
      else if length b = 1 then Inr (map (\<lambda>u. g u (hd b)) a)
      else if length a = 1 then Inr (map (\<lambda>v. g (hd a) v) b)
      else Inl ValueError)"

definition np_add :: "vec \<Rightarrow> vec \<Rightarrow> py_error + vec" where
  "np_add = np_binop (\<lambda>u v. u + v)"

definition np_sub :: "vec \<Rightarrow> vec \<Rightarrow> py_error + vec" where
  "np_sub = np_binop (\<lambda>u v. u - v)"

text \<open>A scalar times an array: \<^verbatim>\<open>h*b\<close>, \<^verbatim>\<open>1j*h*u\<close>.\<close>

definition np_scale :: "complex \<Rightarrow> vec \<Rightarrow> vec" where
  "np_scale c v = map (\<lambda>u. c * u) v"

text \<open>\<^verbatim>\<open>a.imag\<close> of an array.\<close>

definition np_imag :: "vec \<Rightarrow> rvec" where
  "np_imag v = map Im v"

text \<open>
  \<^verbatim>\<open>npl.norm(v, np.inf)\<close>: the largest modulus of an entry. On an empty array the
  reduction has no identity and numpy raises \<^verbatim>\<open>ValueError\<close>.
\<close>

definition norm_inf :: "vec \<Rightarrow> py_error + real" where
  "norm_inf v =
     (case v of
        [] \<Rightarrow> Inl ValueError
      | z # zs \<Rightarrow> Inr (fold (\<lambda>u m. max m (cmod u)) zs (cmod z)))"

text \<open>\<^verbatim>\<open>np.zeros((n,n))\<close>.\<close>

definition np_zeros2 :: "nat \<Rightarrow> nat \<Rightarrow> mat" where
  "np_zeros2 m n = replicate m (replicate n 0)"

subsection \<open>The record of a run\<close>

text \<open>
  A solver returns the triple \<^verbatim>\<open>(x, iters, error)\<close> or raises. Beside this outcome the
  model returns a ghost log: one entry for every execution of the loop body, holding the
  values of \<^verbatim>\<open>iters\<close> and \<^verbatim>\<open>error\<close> at the loop entry that started it. The log is
  not data of the program; it makes "the body executed k times" and "the guard held when
  the body started" statable.
\<close>

type_synonym entry_log = "(int \<times> real) list"

type_synonym 'a run = "(py_error + 'a \<times> int \<times> real) \<times> entry_log"

text \<open>The loop guard \<^verbatim>\<open>iters<=maxit and error >= tol\<close>, shared by all three loops.\<close>

definition guard :: "int \<Rightarrow> real \<Rightarrow> int \<Rightarrow> real \<Rightarrow> bool" where
  "guard maxit tol iters error \<longleftrightarrow> iters \<le> maxit \<and> error \<ge> tol"

section \<open>cnewton, scalar branch\<close>

text \<open>
  \<^verbatim>\<open>
  x = float(x0)
  while (iters<=maxit and error >= tol):
      deriv=f(x+1j*h)
      x = x - h*f(x)/deriv.imag
      error = np.abs(x-x0)
      x0 = x
      iters += 1
  \<close>
  The residual is applied to Python numbers; it is a function on \<^typ>\<open>complex\<close>. The
  division is Python's: a zero divisor raises \<^verbatim>\<open>ZeroDivisionError\<close>.
\<close>

definition scalar_iteration ::
  "(complex \<Rightarrow> complex) \<Rightarrow> real \<Rightarrow> complex \<Rightarrow> complex \<Rightarrow> py_error + complex \<times> real" where
  "scalar_iteration f h x x0 =
     (let deriv = f (x + \<i> * of_real h) in
      if Im deriv = 0 then Inl ZeroDivisionError
      else
        let x' = x - of_real h * f x / of_real (Im deriv);
            error' = cmod (x' - x0)
        in Inr (x', error'))"

function scalar_loop ::
  "(complex \<Rightarrow> complex) \<Rightarrow> int \<Rightarrow> real \<Rightarrow> real \<Rightarrow> complex \<Rightarrow> complex \<Rightarrow> int \<Rightarrow> real
     \<Rightarrow> complex run" where
  "scalar_loop f maxit tol h x x0 iters error =
     (if iters \<le> maxit \<and> error \<ge> tol then
        (case scalar_iteration f h x x0 of
           Inl e \<Rightarrow> (Inl e, [(iters, error)])
         | Inr (x', error') \<Rightarrow>
             apsnd (Cons (iters, error)) (scalar_loop f maxit tol h x' x' (iters + 1) error'))
      else (Inr (x, iters, error), []))"
  by pat_completeness auto
termination
  by (relation "measure (\<lambda>(f, maxit, tol, h, x, x0, iters, error). nat (maxit + 1 - iters))") auto

declare scalar_loop.simps [simp del]

section \<open>cnewton, dense vector branch\<close>

text \<open>
  \<^verbatim>\<open>J[i,j] = v\<close> on a two-dimensional array.
\<close>

definition mat_setitem :: "mat \<Rightarrow> nat \<Rightarrow> nat \<Rightarrow> real \<Rightarrow> py_error + mat" where
  "mat_setitem J i j v =
     (if i < length J \<and> j < length (J ! i) then Inr (J[i := (J ! i)[j := v]])
      else Inl IndexError)"

text \<open>
  The inner loop \<^verbatim>\<open>for i in range(n): J[i,j]=F[i]\<close>, as a recursion over the list of
  the indices still to visit. \<open>J\<close> is updated in place in the source; the model returns
  the updated matrix.
\<close>

fun fill_column :: "mat \<Rightarrow> nat \<Rightarrow> rvec \<Rightarrow> nat list \<Rightarrow> py_error + mat" where
  "fill_column J j F [] = Inr J"
| "fill_column J j F (i # rest) =
     (case np_getitem F i of
        Inl e \<Rightarrow> Inl e
      | Inr v \<Rightarrow>
          (case mat_setitem J i j v of
             Inl e \<Rightarrow> Inl e
           | Inr J' \<Rightarrow> fill_column J' j F rest))"

text \<open>
  The outer loop over the columns:
  \<^verbatim>\<open>
  for j in range(n):
      xx = x.copy()+1j*0.0
      xx[j]=x[j]+1j*h
      F = f(xx).imag
      for i in range(n):
          J[i,j]=F[i]
  \<close>
\<close>

fun jacobian_columns ::
  "(vec \<Rightarrow> vec) \<Rightarrow> real \<Rightarrow> vec \<Rightarrow> nat \<Rightarrow> mat \<Rightarrow> nat list \<Rightarrow> py_error + mat" where
  "jacobian_columns f h x n J [] = Inr J"
| "jacobian_columns f h x n J (j # rest) =
     (let xx = map (\<lambda>u. u + \<i> * 0) x in
      case np_getitem x j of
        Inl e \<Rightarrow> Inl e
      | Inr xj \<Rightarrow>
          (case np_setitem xx j (xj + \<i> * of_real h) of
             Inl e \<Rightarrow> Inl e
           | Inr xx' \<Rightarrow>
               (let F = np_imag (f xx') in
                case fill_column J j F [0..<n] of
                  Inl e \<Rightarrow> Inl e
                | Inr J' \<Rightarrow> jacobian_columns f h x n J' rest)))"

text \<open>
  One execution of the body of the \<^verbatim>\<open>while\<close> loop, up to the increment of
  \<^verbatim>\<open>iters\<close>:
  \<^verbatim>\<open>
  (the two for loops)
  b1 = f(x)
  b = npl.solve(J,b1)
  x = x - h*b
  xx2 = x-x0
  error = npl.norm(xx2,np.inf)
  x0 = x.copy()
  \<close>
  \<^verbatim>\<open>npl.solve\<close> is numpy's; it is a parameter \<open>solve\<close> of the model, which may raise
  (\<^verbatim>\<open>LinAlgError\<close> on a singular matrix). The result is the new \<^verbatim>\<open>x\<close> (also the new
  \<^verbatim>\<open>x0\<close>), the new \<^verbatim>\<open>error\<close> and the matrix \<^verbatim>\<open>J\<close> as the loops left it.
\<close>

definition vector_iteration ::
  "(vec \<Rightarrow> vec) \<Rightarrow> (mat \<Rightarrow> vec \<Rightarrow> py_error + vec) \<Rightarrow> real \<Rightarrow> nat \<Rightarrow> vec \<Rightarrow> vec \<Rightarrow> mat
     \<Rightarrow> py_error + vec \<times> real \<times> mat" where
  "vector_iteration f solve h n x x0 J =
     (case jacobian_columns f h x n J [0..<n] of
        Inl e \<Rightarrow> Inl e
      | Inr J' \<Rightarrow>
          (let b1 = f x in
           case solve J' b1 of
             Inl e \<Rightarrow> Inl e
           | Inr b \<Rightarrow>
               (case np_sub x (np_scale (of_real h) b) of
                  Inl e \<Rightarrow> Inl e
                | Inr x' \<Rightarrow>
                    (case np_sub x' x0 of
                       Inl e \<Rightarrow> Inl e
                     | Inr xx2 \<Rightarrow>
                         (case norm_inf xx2 of
                            Inl e \<Rightarrow> Inl e
                          | Inr error' \<Rightarrow> Inr (x', error', J'))))))"

function vector_loop ::
  "(vec \<Rightarrow> vec) \<Rightarrow> (mat \<Rightarrow> vec \<Rightarrow> py_error + vec) \<Rightarrow> int \<Rightarrow> real \<Rightarrow> real \<Rightarrow> nat
     \<Rightarrow> vec \<Rightarrow> vec \<Rightarrow> mat \<Rightarrow> int \<Rightarrow> real \<Rightarrow> vec run" where
  "vector_loop f solve maxit tol h n x x0 J iters error =
     (if iters \<le> maxit \<and> error \<ge> tol then
        (case vector_iteration f solve h n x x0 J of
           Inl e \<Rightarrow> (Inl e, [(iters, error)])
         | Inr (x', error', J') \<Rightarrow>
             apsnd (Cons (iters, error))
               (vector_loop f solve maxit tol h n x' x' J' (iters + 1) error'))
      else (Inr (x, iters, error), []))"
  by pat_completeness auto
termination
  by (relation "measure (\<lambda>(f, solve, maxit, tol, h, n, x, x0, J, iters, error).
        nat (maxit + 1 - iters))") auto

declare vector_loop.simps [simp del]

text \<open>
  The vector branch from its first line to the \<^verbatim>\<open>return\<close>:
  \<^verbatim>\<open>
  error = 1.0
  iters = 0
  x0 = np.array(list(x0))
  n = len(x0)
  x = x0.copy()
  J = np.zeros((n,n))
  F = f(x)
  if (len(F)!=n):
      raise (InterruptExecution('f must be agree in dimension with x0'))
  while ...
  return x,iters,error
  \<close>
  The name \<^verbatim>\<open>InterruptExecution\<close> is defined nowhere in the notebook, so evaluating the
  operand of \<^verbatim>\<open>raise\<close> raises \<^verbatim>\<open>NameError\<close>: that is the exception the caller sees.
\<close>

definition cnewton_vector ::
  "(vec \<Rightarrow> vec) \<Rightarrow> (mat \<Rightarrow> vec \<Rightarrow> py_error + vec) \<Rightarrow> pyval \<Rightarrow> int \<Rightarrow> real \<Rightarrow> real \<Rightarrow> vec run" where
  "cnewton_vector f solve x0 maxit tol h =
     (case py_list x0 of
        Inl e \<Rightarrow> (Inl e, [])
      | Inr l \<Rightarrow>
          (let x0' = l;
               n = length x0';
               x = x0';
               J = np_zeros2 n n;
               F = f x
           in if length F \<noteq> n then (Inl NameError, [])
              else vector_loop f solve maxit tol h n x x0' J 0 1))"

section \<open>cnewton\<close>

text \<open>
  \<^verbatim>\<open>
  def cnewton(f,x0,maxit,tol,h=1.e-10):
      error = 1.0
      iters = 0
      if type(x0)==float or type(x0)==int:
          x = float(x0)
          (scalar loop)
      else:
          (vector branch)
      return x,iters,error
  \<close>
  The Python callable \<^verbatim>\<open>f\<close> is dynamically typed. The model represents it by its
  action on numbers, \<open>fs\<close>, used by the scalar branch, and its action on one-dimensional
  arrays, \<open>fv\<close>, used by the vector branch. The returned \<^verbatim>\<open>x\<close> is a number or an array.
\<close>

datatype solution = Scalar complex | Vector vec

definition map_run :: "('a \<Rightarrow> 'b) \<Rightarrow> 'a run \<Rightarrow> 'b run" where
  "map_run g r =
     (case r of
        (Inl e, entries) \<Rightarrow> (Inl e, entries)
      | (Inr (x, iters, error), entries) \<Rightarrow> (Inr (g x, iters, error), entries))"

definition cnewton ::
  "(complex \<Rightarrow> complex) \<Rightarrow> (vec \<Rightarrow> vec) \<Rightarrow> (mat \<Rightarrow> vec \<Rightarrow> py_error + vec) \<Rightarrow> pyval \<Rightarrow> int \<Rightarrow> real
     \<Rightarrow> real \<Rightarrow> solution run" where
  "cnewton fs fv solve x0 maxit tol h =
     (if py_type x0 = T_float \<or> py_type x0 = T_int then
        (case py_float x0 of
           Inl e \<Rightarrow> (Inl e, [])
         | Inr r \<Rightarrow>
             map_run Scalar (scalar_loop fs maxit tol h (of_real r) (of_real r) 0 1))
      else map_run Vector (cnewton_vector fv solve x0 maxit tol h))"

section \<open>cnewtonv, the matrix-free solver\<close>

text \<open>
  \<^verbatim>\<open>
  def mv(u):
      z = f(x+1j*h*u).imag
      return z
  \<close>
  \<^verbatim>\<open>mv\<close> is a closure over the variables \<^verbatim>\<open>x\<close> and \<^verbatim>\<open>h\<close> of \<^verbatim>\<open>cnewtonv\<close>: a call
  reads the value \<^verbatim>\<open>x\<close> has at that moment, so in every iteration the operator acts at
  the current iterate. The model makes \<open>x\<close> and \<open>h\<close> arguments.
\<close>

definition mv :: "(vec \<Rightarrow> vec) \<Rightarrow> real \<Rightarrow> vec \<Rightarrow> vec \<Rightarrow> py_error + rvec" where
  "mv f h x u =
     (case np_add x (np_scale (\<i> * of_real h) u) of
        Inl e \<Rightarrow> Inl e
      | Inr z \<Rightarrow> Inr (np_imag (f z)))"

text \<open>
  \<^verbatim>\<open>A = LinearOperator( (n,n), matvec=mv )\<close>: an object with a shape and a function.
  No \<^verbatim>\<open>dtype\<close> is given, so scipy's constructor finds the result type by applying
  \<^verbatim>\<open>matvec\<close> once to a zero vector of length \<open>n\<close>, and \<^verbatim>\<open>matvec\<close> reshapes what the
  function returns to length \<open>n\<close>: a result of another length raises \<^verbatim>\<open>ValueError\<close>
  in the constructor.
\<close>

record linear_operator =
  shape :: "nat \<times> nat"
  matvec :: "vec \<Rightarrow> py_error + rvec"

definition LinearOperator ::
  "nat \<times> nat \<Rightarrow> (vec \<Rightarrow> py_error + rvec) \<Rightarrow> py_error + linear_operator" where
  "LinearOperator s m =
     (case m (replicate (snd s) 0) of
        Inl e \<Rightarrow> Inl e
      | Inr y \<Rightarrow>
          if length y = fst s then Inr \<lparr>shape = s, matvec = m\<rparr> else Inl ValueError)"

text \<open>
  The function of \<^verbatim>\<open>A\<close> is the closure \<^verbatim>\<open>mv\<close>, which reads the variable \<^verbatim>\<open>x\<close>
  when it is called. \<open>operator_at n f h x\<close> is the object \<^verbatim>\<open>A\<close> as a callee sees it
  while \<^verbatim>\<open>x\<close> holds the value \<open>x\<close>.
\<close>

definition operator_at :: "nat \<Rightarrow> (vec \<Rightarrow> vec) \<Rightarrow> real \<Rightarrow> vec \<Rightarrow> linear_operator" where
  "operator_at n f h x = \<lparr>shape = (n, n), matvec = mv f h x\<rparr>"

text \<open>
  \<^verbatim>\<open>lgmres(A, b, x, tol, maxiter=maxit, atol=tol)\<close> is scipy's; it is a parameter of the
  model, taking the operator, the right-hand side, the initial guess (scipy's third
  positional parameter \<^verbatim>\<open>x0\<close>), the relative tolerance, the iteration cap and the
  absolute tolerance, and returning the approximate solution and a convergence flag, or
  raising.
\<close>

type_synonym krylov =
  "linear_operator \<Rightarrow> vec \<Rightarrow> vec \<Rightarrow> real \<Rightarrow> int \<Rightarrow> real \<Rightarrow> py_error + vec \<times> int"

text \<open>
  One execution of the body of the \<^verbatim>\<open>while\<close> loop, up to the increment of
  \<^verbatim>\<open>iters\<close>:
  \<^verbatim>\<open>
  b = h*f(x)
  (b, info) = lgmres(A, b, x, tol, maxiter=maxit, atol=tol)
  x = x - b
  error = npl.norm(b,np.inf)
  \<close>
\<close>

definition cnewtonv_iteration ::
  "(vec \<Rightarrow> vec) \<Rightarrow> krylov \<Rightarrow> int \<Rightarrow> real \<Rightarrow> real \<Rightarrow> nat \<Rightarrow> vec \<Rightarrow> py_error + vec \<times> real" where
  "cnewtonv_iteration f lgmres maxit tol h n x =
     (let A = operator_at n f h x;
          b = np_scale (of_real h) (f x)
      in case lgmres A b x tol maxit tol of
           Inl e \<Rightarrow> Inl e
         | Inr (b', info) \<Rightarrow>
             (case np_sub x b' of
                Inl e \<Rightarrow> Inl e
              | Inr x' \<Rightarrow>
                  (case norm_inf b' of
                     Inl e \<Rightarrow> Inl e
                   | Inr error' \<Rightarrow> Inr (x', error'))))"

function cnewtonv_loop ::
  "(vec \<Rightarrow> vec) \<Rightarrow> krylov \<Rightarrow> int \<Rightarrow> real \<Rightarrow> real \<Rightarrow> nat \<Rightarrow> vec \<Rightarrow> int \<Rightarrow> real \<Rightarrow> vec run" where
  "cnewtonv_loop f lgmres maxit tol h n x iters error =
     (if iters \<le> maxit \<and> error \<ge> tol then
        (case cnewtonv_iteration f lgmres maxit tol h n x of
           Inl e \<Rightarrow> (Inl e, [(iters, error)])
         | Inr (x', error') \<Rightarrow>
             apsnd (Cons (iters, error))
               (cnewtonv_loop f lgmres maxit tol h n x' (iters + 1) error'))
      else (Inr (x, iters, error), []))"
  by pat_completeness auto
termination
  by (relation "measure (\<lambda>(f, lgmres, maxit, tol, h, n, x, iters, error).
        nat (maxit + 1 - iters))") auto

declare cnewtonv_loop.simps [simp del]

text \<open>
  \<^verbatim>\<open>
  def cnewtonv(f, x0, maxit = 100, tol = 1.e-10, h = 1.e-10):
      error = 1.0
      iters = 0
      x0 = np.array(list(x0))
      n = len(x0)
      x = x0.copy()
      n = len(x0)
      A = LinearOperator( (n,n), matvec=mv )
      b = f(x)
      if (len(b)!=n):
          raise (InterruptExecution('f must be agree in dimension with x0'))
      while ...
      return x,iters,error
  \<close>
\<close>

definition cnewtonv ::
  "(vec \<Rightarrow> vec) \<Rightarrow> krylov \<Rightarrow> pyval \<Rightarrow> int \<Rightarrow> real \<Rightarrow> real \<Rightarrow> vec run" where
  "cnewtonv f lgmres x0 maxit tol h =
     (case py_list x0 of
        Inl e \<Rightarrow> (Inl e, [])
      | Inr l \<Rightarrow>
          (let x0' = l;
               n = length x0';
               x = x0'
           in case LinearOperator (n, n) (mv f h x) of
                Inl e \<Rightarrow> (Inl e, [])
              | Inr A \<Rightarrow>
                  (let b = f x
                   in if length b \<noteq> n then (Inl NameError, [])
                      else cnewtonv_loop f lgmres maxit tol h n x 0 1)))"

section \<open>Notions of the specification\<close>

text \<open>
  The point \<open>x + i\<cdot>h\<cdot>u\<close> at which the complex-step derivative along \<open>u\<close> evaluates the
  residual, and the \<open>j\<close>-th standard basis vector of dimension \<open>n\<close>.
\<close>

definition complex_step :: "vec \<Rightarrow> real \<Rightarrow> vec \<Rightarrow> vec" where
  "complex_step x h u = map2 (\<lambda>a b. a + \<i> * of_real h * b) x u"

definition unit_vec :: "nat \<Rightarrow> nat \<Rightarrow> vec" where
  "unit_vec n j = (replicate n 0)[j := 1]"

text \<open>An \<open>n\<close> by \<open>n\<close> array.\<close>

definition square :: "nat \<Rightarrow> mat \<Rightarrow> bool" where
  "square n J \<longleftrightarrow> length J = n \<and> list_all (\<lambda>row. length row = n) J"

text \<open>
  The product of a real matrix with a vector, the affine residual \<open>f(z) = A\<cdot>z + c\<close> with
  real coefficients, the matrix \<open>h\<cdot>A\<close>, and the standard Newton step
  \<open>x - A\<^sup>-\<^sup>1\<cdot>f(x)\<close>, written with a matrix \<open>K\<close> that is an inverse of \<open>A\<close>:
  \<open>K\<cdot>(A\<cdot>v) = v\<close> for every vector \<open>v\<close> of dimension \<open>n\<close>.
\<close>

definition mat_vec :: "mat \<Rightarrow> vec \<Rightarrow> vec" where
  "mat_vec A v = map (\<lambda>row. sum_list (map2 (\<lambda>a u. of_real a * u) row v)) A"

definition affine :: "mat \<Rightarrow> rvec \<Rightarrow> vec \<Rightarrow> vec" where
  "affine A c z = map2 (\<lambda>s t. s + of_real t) (mat_vec A z) c"

definition mat_scale :: "real \<Rightarrow> mat \<Rightarrow> mat" where
  "mat_scale h A = map (map (\<lambda>a. h * a)) A"

definition inverse_of :: "nat \<Rightarrow> mat \<Rightarrow> mat \<Rightarrow> bool" where
  "inverse_of n K A \<longleftrightarrow> square n K \<and> (\<forall>v. length v = n \<longrightarrow> mat_vec K (mat_vec A v) = v)"

definition newton_step :: "mat \<Rightarrow> (vec \<Rightarrow> vec) \<Rightarrow> vec \<Rightarrow> vec" where
  "newton_step K f x = map2 (\<lambda>a d. a - d) x (mat_vec K (f x))"


text \<open>
  The invariant of a loop entered with any value of \<^verbatim>\<open>iters\<close>, from which
  \<open>guarded_run\<close> follows.
\<close>

definition run_ok :: "int \<Rightarrow> real \<Rightarrow> int \<Rightarrow> 'a run \<Rightarrow> bool" where
  "run_ok maxit tol iters r \<longleftrightarrow>
     map fst (snd r) = map (\<lambda>k. iters + int k) [0..<length (snd r)] \<and>
     list_all (\<lambda>(i, e). guard maxit tol i e) (snd r) \<and>
     (\<forall>e. fst r = Inl e \<longrightarrow> snd r \<noteq> []) \<and>
     (\<forall>x it err. fst r = Inr (x, it, err) \<longrightarrow>
        it = iters + int (length (snd r)) \<and> \<not> guard maxit tol it err)"

text \<open>
  A run capped by \<open>maxit\<close>: \<^verbatim>\<open>iters\<close> goes up by one from one execution of the body to
  the next, starting at \<open>0\<close>; the body executed at most \<open>maxit + 1\<close> times; and a run that
  returns with \<^verbatim>\<open>error >= tol\<close> still holding returns \<open>iters = maxit + 1\<close> after exactly
  \<open>maxit + 1\<close> executions of the body.
\<close>

definition capped_run :: "int \<Rightarrow> real \<Rightarrow> 'a run \<Rightarrow> bool" where
  "capped_run maxit tol r \<longleftrightarrow>
     map fst (snd r) = map int [0..<length (snd r)] \<and>
     int (length (snd r)) \<le> maxit + 1 \<and>
     (\<forall>x it err. fst r = Inr (x, it, err) \<and> tol \<le> err \<longrightarrow>
        it = maxit + 1 \<and> int (length (snd r)) = maxit + 1)"

text \<open>
  A run that executed the loop body exactly once, entered with \<^verbatim>\<open>iters = 0\<close> and
  \<^verbatim>\<open>error = 1.0\<close>, unless an exception before the loop ended it (\<^verbatim>\<open>list(x0)\<close>
  raising \<^verbatim>\<open>TypeError\<close>, the constructor of the operator raising \<^verbatim>\<open>ValueError\<close>, or
  the dimension check); and when it returns, it returns \<open>iters = 1\<close>.
\<close>

definition once_run :: "'a run \<Rightarrow> bool" where
  "once_run r \<longleftrightarrow>
     (snd r = [(0, 1)] \<or>
      snd r = [] \<and> (fst r = Inl TypeError \<or> fst r = Inl ValueError \<or> fst r = Inl NameError)) \<and>
     (\<forall>x it err. fst r = Inr (x, it, err) \<longrightarrow> it = 1 \<and> snd r = [(0, 1)])"

section \<open>Linear solvers for the examples\<close>

text \<open>
  The theorems take numpy's \<^verbatim>\<open>solve\<close> and scipy's \<^verbatim>\<open>lgmres\<close> as parameters. The
  examples instantiate them with two small exact solvers: Cramer's rule for systems of
  dimension one and two (a singular matrix raises \<^verbatim>\<open>LinAlgError\<close>, as numpy does), and
  a solver for operators of dimension one that reads the operator's only coefficient off
  its value at \<open>[1]\<close> (and returns its initial guess with a nonzero flag when that
  coefficient is zero).
\<close>

definition solve_small :: "mat \<Rightarrow> vec \<Rightarrow> py_error + vec" where
  "solve_small J b =
     (case (J, b) of
        ([[a]], [v]) \<Rightarrow>
          if a = 0 then Inl LinAlgError else Inr [v / of_real a]
      | ([[a11, a12], [a21, a22]], [v1, v2]) \<Rightarrow>
          (let det = a11 * a22 - a12 * a21 in
           if det = 0 then Inl LinAlgError
           else Inr [(v1 * of_real a22 - of_real a12 * v2) / of_real det,
                     (of_real a11 * v2 - of_real a21 * v1) / of_real det])
      | _ \<Rightarrow> Inl LinAlgError)"

definition krylov_small :: krylov where
  "krylov_small A b x0 tol maxiter atol =
     (case matvec A [1] of
        Inl e \<Rightarrow> Inl e
      | Inr col \<Rightarrow>
          (case (col, b) of
             ([a], [v]) \<Rightarrow> if a = 0 then Inr (x0, 1) else Inr ([v / of_real a], 0)
           | _ \<Rightarrow> Inl ValueError))"

section \<open>The solvers on a store\<close>

text \<open>
  For the question which objects a call writes to, arrays are objects in a store and
  variables hold references. The store is the list of the objects allocated so far; a
  reference is an index into it; allocation appends. A computation takes the store and
  returns its outcome with the new store.
\<close>

datatype obj = Obj pyval | RealArray rvec | Matrix mat

type_synonym heap = "obj list"

type_synonym addr = nat

type_synonym 'a hm = "heap \<Rightarrow> (py_error + 'a) \<times> heap"

definition h_return :: "'a \<Rightarrow> 'a hm" where
  "h_return v H = (Inr v, H)"

definition h_raise :: "py_error \<Rightarrow> 'a hm" where
  "h_raise e H = (Inl e, H)"

definition h_bind :: "'a hm \<Rightarrow> ('a \<Rightarrow> 'b hm) \<Rightarrow> 'b hm" where
  "h_bind m k H = (case m H of (Inl e, H') \<Rightarrow> (Inl e, H') | (Inr v, H') \<Rightarrow> k v H')"

text \<open>A computation on values that may raise and does not touch the store.\<close>

definition h_lift :: "py_error + 'a \<Rightarrow> 'a hm" where
  "h_lift r H = (r, H)"

text \<open>
  Allocation of a new object, reading the object behind a reference, and replacing it
  (the effect of an in-place write). A reference to no object cannot arise in Python; the
  model raises \<^verbatim>\<open>SystemError\<close> there.
\<close>

definition h_new :: "obj \<Rightarrow> addr hm" where
  "h_new v H = (Inr (length H), H @ [v])"

definition h_get :: "addr \<Rightarrow> obj hm" where
  "h_get a H = (if a < length H then (Inr (H ! a), H) else (Inl SystemError, H))"

definition h_put :: "addr \<Rightarrow> obj \<Rightarrow> unit hm" where
  "h_put a v H = (if a < length H then (Inr (), H[a := v]) else (Inl SystemError, H))"

text \<open>Reading an object as a complex array, a real array, a matrix.\<close>

definition h_array :: "addr \<Rightarrow> vec hm" where
  "h_array a = h_bind (h_get a) (\<lambda>v. case v of Obj (NdArray x) \<Rightarrow> h_return x | _ \<Rightarrow> h_raise TypeError)"

definition h_real_array :: "addr \<Rightarrow> rvec hm" where
  "h_real_array a = h_bind (h_get a) (\<lambda>v. case v of RealArray x \<Rightarrow> h_return x | _ \<Rightarrow> h_raise TypeError)"

definition h_matrix :: "addr \<Rightarrow> mat hm" where
  "h_matrix a = h_bind (h_get a) (\<lambda>v. case v of Matrix J \<Rightarrow> h_return J | _ \<Rightarrow> h_raise TypeError)"

text \<open>
  A call \<^verbatim>\<open>f(x)\<close> of the residual with a reference to an array: the residual is a pure
  mapping, it reads its argument and returns a new array.
\<close>

definition h_call :: "(vec \<Rightarrow> vec) \<Rightarrow> addr \<Rightarrow> addr hm" where
  "h_call f a = h_bind (h_array a) (\<lambda>x. h_new (Obj (NdArray (f x))))"

text \<open>\<^verbatim>\<open>for i in range(n): J[i,j]=F[i]\<close>, writing into the object \<^verbatim>\<open>J\<close>.\<close>

fun fill_column_h :: "addr \<Rightarrow> nat \<Rightarrow> addr \<Rightarrow> nat list \<Rightarrow> unit hm" where
  "fill_column_h aJ j aF [] = h_return ()"
| "fill_column_h aJ j aF (i # rest) =
     h_bind (h_real_array aF) (\<lambda>F.
     h_bind (h_lift (np_getitem F i)) (\<lambda>v.
     h_bind (h_matrix aJ) (\<lambda>J.
     h_bind (h_lift (mat_setitem J i j v)) (\<lambda>J'.
     h_bind (h_put aJ (Matrix J')) (\<lambda>u.
     fill_column_h aJ j aF rest)))))"

text \<open>
  The loop over the columns. \<^verbatim>\<open>xx = x.copy()+1j*0.0\<close> allocates a new array,
  \<^verbatim>\<open>xx[j]=x[j]+1j*h\<close> writes into it, \<^verbatim>\<open>F = f(xx).imag\<close> allocates.
\<close>

fun jacobian_columns_h ::
  "(vec \<Rightarrow> vec) \<Rightarrow> real \<Rightarrow> addr \<Rightarrow> nat \<Rightarrow> addr \<Rightarrow> nat list \<Rightarrow> unit hm" where
  "jacobian_columns_h f h ax n aJ [] = h_return ()"
| "jacobian_columns_h f h ax n aJ (j # rest) =
     h_bind (h_array ax) (\<lambda>x.
     h_bind (h_new (Obj (NdArray (map (\<lambda>u. u + \<i> * 0) x)))) (\<lambda>axx.
     h_bind (h_lift (np_getitem x j)) (\<lambda>xj.
     h_bind (h_array axx) (\<lambda>xx.
     h_bind (h_lift (np_setitem xx j (xj + \<i> * of_real h))) (\<lambda>xx'.
     h_bind (h_put axx (Obj (NdArray xx'))) (\<lambda>u.
     h_bind (h_call f axx) (\<lambda>afx.
     h_bind (h_array afx) (\<lambda>fx.
     h_bind (h_new (RealArray (np_imag fx))) (\<lambda>aF.
     h_bind (fill_column_h aJ j aF [0..<n]) (\<lambda>u.
     jacobian_columns_h f h ax n aJ rest))))))))))"

text \<open>
  One execution of the loop body. Every assignment to \<^verbatim>\<open>x\<close>, \<^verbatim>\<open>x0\<close>, \<^verbatim>\<open>b1\<close>,
  \<^verbatim>\<open>b\<close> and \<^verbatim>\<open>xx2\<close> binds the name to a new object: \<^verbatim>\<open>x = x - h*b\<close> and
  \<^verbatim>\<open>x0 = x.copy()\<close> are not in-place updates. It returns the references held by
  \<^verbatim>\<open>x\<close> and \<^verbatim>\<open>x0\<close> and the new \<^verbatim>\<open>error\<close>.
\<close>

definition vector_iteration_h ::
  "(vec \<Rightarrow> vec) \<Rightarrow> (mat \<Rightarrow> vec \<Rightarrow> py_error + vec) \<Rightarrow> real \<Rightarrow> nat \<Rightarrow> addr \<Rightarrow> addr \<Rightarrow> addr
     \<Rightarrow> (addr \<times> addr \<times> real) hm" where
  "vector_iteration_h f solve h n ax ax0 aJ =
     h_bind (jacobian_columns_h f h ax n aJ [0..<n]) (\<lambda>u.
     h_bind (h_call f ax) (\<lambda>ab1.
     h_bind (h_matrix aJ) (\<lambda>J.
     h_bind (h_array ab1) (\<lambda>b1.
     h_bind (h_lift (solve J b1)) (\<lambda>b.
     h_bind (h_new (Obj (NdArray b))) (\<lambda>ab.
     h_bind (h_array ax) (\<lambda>x.
     h_bind (h_array ab) (\<lambda>b.
     h_bind (h_lift (np_sub x (np_scale (of_real h) b))) (\<lambda>x'.
     h_bind (h_new (Obj (NdArray x'))) (\<lambda>ax'.
     h_bind (h_array ax0) (\<lambda>x0.
     h_bind (h_lift (np_sub x' x0)) (\<lambda>xx2.
     h_bind (h_new (Obj (NdArray xx2))) (\<lambda>axx2.
     h_bind (h_array axx2) (\<lambda>xx2.
     h_bind (h_lift (norm_inf xx2)) (\<lambda>error'.
     h_bind (h_array ax') (\<lambda>x'.
     h_bind (h_new (Obj (NdArray x'))) (\<lambda>ax0'.
     h_return (ax', ax0', error'))))))))))))))))))"

function vector_loop_h ::
  "(vec \<Rightarrow> vec) \<Rightarrow> (mat \<Rightarrow> vec \<Rightarrow> py_error + vec) \<Rightarrow> int \<Rightarrow> real \<Rightarrow> real \<Rightarrow> nat
     \<Rightarrow> addr \<Rightarrow> addr \<Rightarrow> addr \<Rightarrow> int \<Rightarrow> real \<Rightarrow> (addr \<times> int \<times> real) hm" where
  "vector_loop_h f solve maxit tol h n ax ax0 aJ iters error H =
     (if iters \<le> maxit \<and> error \<ge> tol then
        (case vector_iteration_h f solve h n ax ax0 aJ H of
           (Inl e, H') \<Rightarrow> (Inl e, H')
         | (Inr (ax', ax0', error'), H') \<Rightarrow>
             vector_loop_h f solve maxit tol h n ax' ax0' aJ (iters + 1) error' H')
      else (Inr (ax, iters, error), H))"
  by pat_completeness auto
termination
  by (relation "measure (\<lambda>(f, solve, maxit, tol, h, n, ax, ax0, aJ, iters, error, H).
        nat (maxit + 1 - iters))") auto

declare vector_loop_h.simps [simp del]

text \<open>
  The vector branch of \<^verbatim>\<open>cnewton\<close>, called with a reference \<open>a0\<close> to the caller's
  object: \<^verbatim>\<open>x0 = np.array(list(x0))\<close> reads the caller's object and binds the local
  name \<^verbatim>\<open>x0\<close> to a new array; \<^verbatim>\<open>x = x0.copy()\<close> and \<^verbatim>\<open>J = np.zeros((n,n))\<close>
  allocate.
\<close>

definition cnewton_vector_h ::
  "(vec \<Rightarrow> vec) \<Rightarrow> (mat \<Rightarrow> vec \<Rightarrow> py_error + vec) \<Rightarrow> addr \<Rightarrow> int \<Rightarrow> real \<Rightarrow> real
     \<Rightarrow> (addr \<times> int \<times> real) hm" where
  "cnewton_vector_h f solve a0 maxit tol h =
     h_bind (h_get a0) (\<lambda>v.
     h_bind (h_lift (case v of Obj p \<Rightarrow> py_list p | _ \<Rightarrow> Inl TypeError)) (\<lambda>l.
     h_bind (h_new (Obj (NdArray l))) (\<lambda>ax0.
     h_bind (h_array ax0) (\<lambda>x0.
     h_bind (h_new (Obj (NdArray x0))) (\<lambda>ax.
     h_bind (h_new (Matrix (np_zeros2 (length x0) (length x0)))) (\<lambda>aJ.
     h_bind (h_call f ax) (\<lambda>aF.
     h_bind (h_array aF) (\<lambda>F.
     if length F \<noteq> length x0 then h_raise NameError
     else vector_loop_h f solve maxit tol h (length x0) ax ax0 aJ 0 1))))))))"

text \<open>
  \<^verbatim>\<open>cnewton\<close> with a reference to the caller's object. The scalar branch computes with
  numbers, which are immutable, and leaves the store alone; its result is a number.
\<close>

datatype solution_ref = ScalarValue complex | ArrayRef addr

definition cnewton_h ::
  "(complex \<Rightarrow> complex) \<Rightarrow> (vec \<Rightarrow> vec) \<Rightarrow> (mat \<Rightarrow> vec \<Rightarrow> py_error + vec) \<Rightarrow> addr \<Rightarrow> int \<Rightarrow> real
     \<Rightarrow> real \<Rightarrow> (solution_ref \<times> int \<times> real) hm" where
  "cnewton_h fs fv solve a0 maxit tol h =
     h_bind (h_get a0) (\<lambda>v.
       case v of
         Obj p \<Rightarrow>
           if py_type p = T_float \<or> py_type p = T_int then
             h_bind (h_lift (py_float p)) (\<lambda>r.
             h_bind (h_lift (fst (scalar_loop fs maxit tol h (of_real r) (of_real r) 0 1)))
               (\<lambda>(x, iters, error). h_return (ScalarValue x, iters, error)))
           else
             h_bind (cnewton_vector_h fv solve a0 maxit tol h)
               (\<lambda>(ax, iters, error). h_return (ArrayRef ax, iters, error))
       | _ \<Rightarrow> h_raise TypeError)"

text \<open>
  \<^verbatim>\<open>cnewtonv\<close> on the store. Its loop body writes into no object at all:
  \<^verbatim>\<open>b = h*f(x)\<close>, the result of \<^verbatim>\<open>lgmres\<close> and \<^verbatim>\<open>x = x - b\<close> are new arrays.
  \<^verbatim>\<open>lgmres\<close> is given the values of its arguments and returns a new array.
\<close>

definition cnewtonv_iteration_h ::
  "(vec \<Rightarrow> vec) \<Rightarrow> krylov \<Rightarrow> int \<Rightarrow> real \<Rightarrow> real \<Rightarrow> nat \<Rightarrow> addr \<Rightarrow> (addr \<times> real) hm" where
  "cnewtonv_iteration_h f lgmres maxit tol h n ax =
     h_bind (h_call f ax) (\<lambda>afx.
     h_bind (h_array afx) (\<lambda>fx.
     h_bind (h_new (Obj (NdArray (np_scale (of_real h) fx)))) (\<lambda>ab.
     h_bind (h_array ab) (\<lambda>b.
     h_bind (h_array ax) (\<lambda>x.
     h_bind (h_lift (lgmres (operator_at n f h x) b x tol maxit tol)) (\<lambda>(b', info).
     h_bind (h_new (Obj (NdArray b'))) (\<lambda>ab'.
     h_bind (h_lift (np_sub x b')) (\<lambda>x'.
     h_bind (h_new (Obj (NdArray x'))) (\<lambda>ax'.
     h_bind (h_lift (norm_inf b')) (\<lambda>error'.
     h_return (ax', error')))))))))))"

function cnewtonv_loop_h ::
  "(vec \<Rightarrow> vec) \<Rightarrow> krylov \<Rightarrow> int \<Rightarrow> real \<Rightarrow> real \<Rightarrow> nat \<Rightarrow> addr \<Rightarrow> int \<Rightarrow> real
     \<Rightarrow> (addr \<times> int \<times> real) hm" where
  "cnewtonv_loop_h f lgmres maxit tol h n ax iters error H =
     (if iters \<le> maxit \<and> error \<ge> tol then
        (case cnewtonv_iteration_h f lgmres maxit tol h n ax H of
           (Inl e, H') \<Rightarrow> (Inl e, H')
         | (Inr (ax', error'), H') \<Rightarrow>
             cnewtonv_loop_h f lgmres maxit tol h n ax' (iters + 1) error' H')
      else (Inr (ax, iters, error), H))"
  by pat_completeness auto
termination
  by (relation "measure (\<lambda>(f, lgmres, maxit, tol, h, n, ax, iters, error, H).
        nat (maxit + 1 - iters))") auto

declare cnewtonv_loop_h.simps [simp del]

definition cnewtonv_h ::
  "(vec \<Rightarrow> vec) \<Rightarrow> krylov \<Rightarrow> addr \<Rightarrow> int \<Rightarrow> real \<Rightarrow> real \<Rightarrow> (addr \<times> int \<times> real) hm" where
  "cnewtonv_h f lgmres a0 maxit tol h =
     h_bind (h_get a0) (\<lambda>v.
     h_bind (h_lift (case v of Obj p \<Rightarrow> py_list p | _ \<Rightarrow> Inl TypeError)) (\<lambda>l.
     h_bind (h_new (Obj (NdArray l))) (\<lambda>ax0.
     h_bind (h_array ax0) (\<lambda>x0.
     h_bind (h_new (Obj (NdArray x0))) (\<lambda>ax.
     h_bind (h_array ax) (\<lambda>x.
     h_bind (h_lift (LinearOperator (length x0, length x0) (mv f h x))) (\<lambda>A.
     h_bind (h_call f ax) (\<lambda>ab.
     h_bind (h_array ab) (\<lambda>b.
     if length b \<noteq> length x0 then h_raise NameError
     else cnewtonv_loop_h f lgmres maxit tol h (length x0) ax 0 1)))))))))"

text \<open>
  What a computation does to the objects that exist before it starts, the first \<open>L\<close>
  objects of the store: \<open>frame L m Q\<close> says that \<open>m\<close>, run on any store with at least
  \<open>L\<close> objects, removes no object, leaves the first \<open>L\<close> as they are, and returns a value
  that satisfies \<open>Q\<close>.
\<close>

definition frame :: "nat \<Rightarrow> 'a hm \<Rightarrow> ('a \<Rightarrow> bool) \<Rightarrow> bool" where
  "frame L m Q \<longleftrightarrow>
     (\<forall>H. L \<le> length H \<longrightarrow>
        length H \<le> length (snd (m H)) \<and> take L (snd (m H)) = take L H \<and>
        (\<forall>v. fst (m H) = Inr v \<longrightarrow> Q v))"

text \<open>
  The link between the store and the values: the variables \<^verbatim>\<open>x\<close>, \<^verbatim>\<open>x0\<close> and
  \<^verbatim>\<open>J\<close> of the dense loop refer to objects holding \<open>x\<close>, \<open>x0\<close> and \<open>J\<close>, and \<^verbatim>\<open>J\<close>
  is an object of its own. The value of a returned reference is the array it refers to in
  the final store.
\<close>

definition holds_state :: "heap \<Rightarrow> addr \<Rightarrow> addr \<Rightarrow> addr \<Rightarrow> vec \<Rightarrow> vec \<Rightarrow> mat \<Rightarrow> bool" where
  "holds_state H ax ax0 aJ x x0 J \<longleftrightarrow>
     ax < length H \<and> ax0 < length H \<and> aJ < length H \<and> aJ \<noteq> ax \<and> aJ \<noteq> ax0 \<and>
     H ! ax = Obj (NdArray x) \<and> H ! ax0 = Obj (NdArray x0) \<and> H ! aJ = Matrix J"

definition outcome_of :: "py_error + 'a \<Rightarrow> py_error + unit" where
  "outcome_of r = (case r of Inl e \<Rightarrow> Inl e | Inr v \<Rightarrow> Inr ())"

definition result_value ::
  "(py_error + addr \<times> int \<times> real) \<times> heap \<Rightarrow> py_error + vec \<times> int \<times> real" where
  "result_value r =
     (case r of
        (Inl e, H) \<Rightarrow> Inl e
      | (Inr (a, iters, error), H) \<Rightarrow>
          (case fst (h_array a H) of
             Inl e \<Rightarrow> Inl e
           | Inr x \<Rightarrow> Inr (x, iters, error)))"

definition result_solution ::
  "(py_error + solution_ref \<times> int \<times> real) \<times> heap \<Rightarrow> py_error + solution \<times> int \<times> real" where
  "result_solution r =
     (case r of
        (Inl e, H) \<Rightarrow> Inl e
      | (Inr (ScalarValue z, iters, error), H) \<Rightarrow> Inr (Scalar z, iters, error)
      | (Inr (ArrayRef a, iters, error), H) \<Rightarrow>
          (case fst (h_array a H) of
             Inl e \<Rightarrow> Inl e
           | Inr x \<Rightarrow> Inr (Vector x, iters, error)))"

section \<open>Lemmas on arrays\<close>

lemma np_sub_same_length:
  "length a = length b \<Longrightarrow> np_sub a b = Inr (map2 (\<lambda>u v. u - v) a b)"
  by (simp add: np_sub_def np_binop_def)

lemma np_add_same_length:
  "length a = length b \<Longrightarrow> np_add a b = Inr (map2 (\<lambda>u v. u + v) a b)"
  by (simp add: np_add_def np_binop_def)

lemma norm_inf_Max: "norm_inf v = Inr m \<Longrightarrow> m = Max (cmod ` set v)"
proof -
  have fold_max: "fold (\<lambda>u m. max m (cmod u)) zs a = Max (insert a (cmod ` set zs))" for zs a
  proof (induction zs arbitrary: a)
    case Nil
    then show ?case by simp
  next
    case (Cons z zs)
    have "Max (insert (max a (cmod z)) (cmod ` set zs))
          = Max (insert a (insert (cmod z) (cmod ` set zs)))"
      by (cases "set zs = {}") (simp_all add: max.assoc)
    then show ?case using Cons by simp
  qed
  assume "norm_inf v = Inr m"
  then show ?thesis
    by (cases v) (auto simp: norm_inf_def fold_max)
qed

lemma norm_inf_nonempty: "v \<noteq> [] \<Longrightarrow> \<exists>m. norm_inf v = Inr m"
  by (cases v) (simp_all add: norm_inf_def)

lemma square_nth: "square n J \<longleftrightarrow> length J = n \<and> (\<forall>i<n. length (J ! i) = n)"
  by (auto simp: square_def list_all_length)

lemma complex_step_unit:
  assumes "j < length x"
  shows "complex_step x h (unit_vec (length x) j) = x[j := x ! j + \<i> * of_real h]"
proof (rule nth_equalityI)
  show "length (complex_step x h (unit_vec (length x) j)) = length (x[j := x ! j + \<i> * of_real h])"
    by (simp add: complex_step_def unit_vec_def)
next
  fix k assume "k < length (complex_step x h (unit_vec (length x) j))"
  then have k: "k < length x" by (simp add: complex_step_def unit_vec_def)
  show "complex_step x h (unit_vec (length x) j) ! k = x[j := x ! j + \<i> * of_real h] ! k"
    using k assms by (cases "k = j") (simp_all add: complex_step_def unit_vec_def)
qed

lemma complex_step_zero: "complex_step x h (replicate (length x) 0) = x"
  by (rule nth_equalityI) (simp_all add: complex_step_def)

lemma mv_complex_step:
  "length u = length x \<Longrightarrow> mv f h x u = Inr (map Im (f (complex_step x h u)))"
proof -
  assume len: "length u = length x"
  have "map2 (\<lambda>a b. a + b) x (np_scale (\<i> * of_real h) u) = complex_step x h u"
    by (simp add: complex_step_def np_scale_def zip_map2 split_def)
  then show ?thesis
    using len by (simp add: mv_def np_add_same_length np_scale_def np_imag_def)
qed

lemma mv_zero: "mv f h x (replicate (length x) 0) = Inr (map Im (f x))"
  using mv_complex_step[of "replicate (length x) 0" x f h] by (simp add: complex_step_zero)

text \<open>
  The constructor's probe amounts to the dimension check: it raises exactly when
  \<^verbatim>\<open>f(x)\<close> has another length than \<^verbatim>\<open>x\<close>.
\<close>

lemma LinearOperator_probe:
  "LinearOperator (length x, length x) (mv f h x) =
     (if length (f x) = length x then Inr (operator_at (length x) f h x) else Inl ValueError)"
  by (simp add: LinearOperator_def mv_zero operator_at_def)

lemma py_float_scalar:
  "py_type x0 = T_float \<or> py_type x0 = T_int \<Longrightarrow> \<exists>r. py_float x0 = Inr r"
  by (cases x0) auto

lemma py_list_vector:
  "py_list x0 = Inr l \<Longrightarrow> \<not> (py_type x0 = T_float \<or> py_type x0 = T_int)"
  by (cases x0) auto

lemma py_list_error: "py_list x0 = Inl e \<Longrightarrow> e = TypeError"
  by (cases x0) auto

lemma fst_map_run:
  "fst (map_run g r) = Inr (y, it, err) \<longleftrightarrow> (\<exists>x. fst r = Inr (x, it, err) \<and> y = g x)"
  by (cases r) (auto simp: map_run_def split: sum.splits)

lemma fst_map_run_Inl: "fst (map_run g r) = Inl e \<longleftrightarrow> fst r = Inl e"
  by (cases r) (auto simp: map_run_def split: sum.splits)

lemma snd_map_run: "snd (map_run g r) = snd r"
  by (cases r) (auto simp: map_run_def split: sum.splits)

section \<open>Concrete runs\<close>

text \<open>
  Concrete runs, evaluated by rewriting with the definitions. The residual is
  \<open>f(z) = z\<^sup>2 - 2\<close>, on numbers and on arrays of length one, started at \<open>1\<close> with
  \<open>h = 1\<close>; the two-dimensional system is the one of the notebook.
\<close>

lemmas eval_defs =
  cnewton_def cnewton_vector_def cnewtonv_def vector_iteration_def cnewtonv_iteration_def
  scalar_iteration_def np_zeros2_def np_getitem_def np_setitem_def mat_setitem_def np_imag_def
  solve_small_def krylov_small_def np_sub_def np_add_def np_binop_def np_scale_def norm_inf_def
  map_run_def mv_def LinearOperator_def operator_at_def guard_def
  scalar_loop.simps vector_loop.simps cnewtonv_loop.simps



lemma run_scalar_capped:
  "cnewton (\<lambda>z. z * z - 2) fv solve (PyInt 1) 0 (1/10) 1
     = (Inr (Scalar (3/2), 1, 1/2), [(0, 1)])"
  by (simp add: eval_defs)

lemma run_vector_capped:
  "cnewton fs (map (\<lambda>z. z * z - 2)) solve_small (NdArray [1]) 0 (1/10) 1
     = (Inr (Vector [3/2], 1, 1/2), [(0, 1)])"
  by (simp add: eval_defs)

lemma run_free_capped:
  "cnewtonv (map (\<lambda>z. z * z - 2)) krylov_small (PyList [1]) 0 (1/10) 1
     = (Inr ([3/2], 1, 1/2), [(0, 1)])"
  by (simp add: eval_defs)

lemma iteration_2d:
  "vector_iteration (\<lambda>v. [v ! 0 + v ! 1 * v ! 1 / 4 - 5 / 4, v ! 0 * v ! 0 / 4 + v ! 1 - 5 / 4])
      solve_small (1/1000) 2 [0, 0] [0, 0] (np_zeros2 2 2)
     = Inr ([5/4, 5/4], 5/4, [[1/1000, 0], [0, 1/1000]])"
  by (simp add: eval_defs numeral_2_eq_2 upt_rec)


section \<open>The loop guard and the iteration cap\<close>

lemma run_ok_exit:
  "\<not> guard maxit tol iters error \<Longrightarrow> run_ok maxit tol iters (Inr (x, iters, error), [])"
  by (simp add: run_ok_def)

lemma run_ok_raise:
  "guard maxit tol iters error \<Longrightarrow> run_ok maxit tol iters (Inl e, [(iters, error)])"
  by (simp add: run_ok_def)

lemma run_ok_step:
  assumes "guard maxit tol iters error" and "run_ok maxit tol (iters + 1) r"
  shows "run_ok maxit tol iters (apsnd (Cons (iters, error)) r)"
proof -
  obtain outcome entries where r: "r = (outcome, entries)" by (cases r)
  have idx: "map fst entries = map (\<lambda>k. iters + 1 + int k) [0..<length entries]"
    using assms(2) by (simp add: run_ok_def r)
  have "map (\<lambda>k. iters + int k) [0..<Suc (length entries)]
        = iters # map (\<lambda>k. iters + int k) (map Suc [0..<length entries])"
    by (simp only: upt_conv_Cons[of 0] map_Suc_upt[symmetric]) simp
  also have "\<dots> = iters # map (\<lambda>k. iters + 1 + int k) [0..<length entries]"
    by (simp add: comp_def)
  finally have a: "map fst ((iters, error) # entries)
        = map (\<lambda>k. iters + int k) [0..<length ((iters, error) # entries)]"
    using idx by simp
  have b: "list_all (\<lambda>(i, e). guard maxit tol i e) ((iters, error) # entries)"
    using assms by (simp add: run_ok_def r)
  have c: "\<forall>x it err. outcome = Inr (x, it, err) \<longrightarrow>
          it = iters + int (length ((iters, error) # entries)) \<and> \<not> guard maxit tol it err"
    using assms(2) by (auto simp: run_ok_def r)
  show ?thesis
    unfolding run_ok_def r using a b c by simp
qed

lemma scalar_loop_unfold:
  "scalar_loop f maxit tol h x x0 iters error =
     (if guard maxit tol iters error then
        (case scalar_iteration f h x x0 of
           Inl e \<Rightarrow> (Inl e, [(iters, error)])
         | Inr (x', error') \<Rightarrow>
             apsnd (Cons (iters, error)) (scalar_loop f maxit tol h x' x' (iters + 1) error'))
      else (Inr (x, iters, error), []))"
  by (subst scalar_loop.simps) (simp add: guard_def)

lemma vector_loop_unfold:
  "vector_loop f solve maxit tol h n x x0 J iters error =
     (if guard maxit tol iters error then
        (case vector_iteration f solve h n x x0 J of
           Inl e \<Rightarrow> (Inl e, [(iters, error)])
         | Inr (x', error', J') \<Rightarrow>
             apsnd (Cons (iters, error))
               (vector_loop f solve maxit tol h n x' x' J' (iters + 1) error'))
      else (Inr (x, iters, error), []))"
  by (subst vector_loop.simps) (simp add: guard_def)

lemma cnewtonv_loop_unfold:
  "cnewtonv_loop f lgmres maxit tol h n x iters error =
     (if guard maxit tol iters error then
        (case cnewtonv_iteration f lgmres maxit tol h n x of
           Inl e \<Rightarrow> (Inl e, [(iters, error)])
         | Inr (x', error') \<Rightarrow>
             apsnd (Cons (iters, error))
               (cnewtonv_loop f lgmres maxit tol h n x' (iters + 1) error'))
      else (Inr (x, iters, error), []))"
  by (subst cnewtonv_loop.simps) (simp add: guard_def)

lemma scalar_loop_ok: "run_ok maxit tol iters (scalar_loop f maxit tol h x x0 iters error)"
proof (induction f maxit tol h x x0 iters error rule: scalar_loop.induct)
  case (1 f maxit tol h x x0 iters error)
  show ?case
  proof (cases "guard maxit tol iters error")
    case False
    then show ?thesis
      by (subst scalar_loop_unfold) (simp add: run_ok_exit)
  next
    case True
    then have g: "iters \<le> maxit \<and> tol \<le> error" by (simp add: guard_def)
    show ?thesis
    proof (cases "scalar_iteration f h x x0")
      case (Inl e)
      then show ?thesis using True
        by (subst scalar_loop_unfold) (simp add: run_ok_raise)
    next
      case (Inr p)
      obtain x' error' where p: "p = (x', error')" by (cases p)
      have "run_ok maxit tol (iters + 1) (scalar_loop f maxit tol h x' x' (iters + 1) error')"
        using "1.IH"[OF g Inr[unfolded p] refl] .
      then show ?thesis using True Inr p
        by (subst scalar_loop_unfold) (simp add: run_ok_step)
    qed
  qed
qed

lemma vector_loop_ok:
  "run_ok maxit tol iters (vector_loop f solve maxit tol h n x x0 J iters error)"
proof (induction f solve maxit tol h n x x0 J iters error rule: vector_loop.induct)
  case (1 f solve maxit tol h n x x0 J iters error)
  show ?case
  proof (cases "guard maxit tol iters error")
    case False
    then show ?thesis
      by (subst vector_loop_unfold) (simp add: run_ok_exit)
  next
    case True
    then have g: "iters \<le> maxit \<and> tol \<le> error" by (simp add: guard_def)
    show ?thesis
    proof (cases "vector_iteration f solve h n x x0 J")
      case (Inl e)
      then show ?thesis using True
        by (subst vector_loop_unfold) (simp add: run_ok_raise)
    next
      case (Inr p)
      obtain x' error' J' where p: "p = (x', error', J')" by (cases p)
      have "run_ok maxit tol (iters + 1)
              (vector_loop f solve maxit tol h n x' x' J' (iters + 1) error')"
        using "1.IH"[OF g Inr[unfolded p] refl refl] .
      then show ?thesis using True Inr p
        by (subst vector_loop_unfold) (simp add: run_ok_step)
    qed
  qed
qed

lemma cnewtonv_loop_ok:
  "run_ok maxit tol iters (cnewtonv_loop f lgmres maxit tol h n x iters error)"
proof (induction f lgmres maxit tol h n x iters error rule: cnewtonv_loop.induct)
  case (1 f lgmres maxit tol h n x iters error)
  show ?case
  proof (cases "guard maxit tol iters error")
    case False
    then show ?thesis
      by (subst cnewtonv_loop_unfold) (simp add: run_ok_exit)
  next
    case True
    then have g: "iters \<le> maxit \<and> tol \<le> error" by (simp add: guard_def)
    show ?thesis
    proof (cases "cnewtonv_iteration f lgmres maxit tol h n x")
      case (Inl e)
      then show ?thesis using True
        by (subst cnewtonv_loop_unfold) (simp add: run_ok_raise)
    next
      case (Inr p)
      obtain x' error' where p: "p = (x', error')" by (cases p)
      have "run_ok maxit tol (iters + 1)
              (cnewtonv_loop f lgmres maxit tol h n x' (iters + 1) error')"
        using "1.IH"[OF g Inr[unfolded p] refl] .
      then show ?thesis using True Inr p
        by (subst cnewtonv_loop_unfold) (simp add: run_ok_step)
    qed
  qed
qed

text \<open>The number of body executions of a loop entered with \<open>iters = 0\<close>.\<close>

lemma run_ok_length:
  assumes "run_ok maxit tol 0 r"
  shows "int (length (snd r)) \<le> max (maxit + 1) 0"
proof (cases "snd r = []")
  case True
  then show ?thesis by simp
next
  case False
  define k where "k = length (snd r) - 1"
  have k: "k < length (snd r)" using False by (simp add: k_def)
  have "map fst (snd r) ! k = map (\<lambda>k. 0 + int k) [0..<length (snd r)] ! k"
    using assms by (simp add: run_ok_def)
  then have "fst (snd r ! k) = int k" using k by simp
  moreover have "guard maxit tol (fst (snd r ! k)) (snd (snd r ! k))"
    using assms k by (auto simp: run_ok_def list_all_length split: prod.splits)
  ultimately have "int k \<le> maxit" by (simp add: guard_def)
  then show ?thesis using k by (simp add: k_def)
qed








lemma run_ok_capped:
  assumes "run_ok maxit tol 0 r" and "0 \<le> maxit"
  shows "capped_run maxit tol r"
proof -
  have len: "int (length (snd r)) \<le> maxit + 1"
    using run_ok_length[OF assms(1)] assms(2) by simp
  have "\<forall>x it err. fst r = Inr (x, it, err) \<and> tol \<le> err \<longrightarrow>
        it = maxit + 1 \<and> int (length (snd r)) = maxit + 1"
    using assms(1) len by (auto simp: run_ok_def guard_def)
  moreover have "map fst (snd r) = map int [0..<length (snd r)]"
    using assms(1) by (simp add: run_ok_def)
  ultimately show ?thesis using len by (simp add: capped_run_def)
qed

lemma capped_run_raise: "0 \<le> maxit \<Longrightarrow> capped_run maxit tol (Inl e, [])"
  by (simp add: capped_run_def)

lemma capped_run_map_run: "capped_run maxit tol r \<Longrightarrow> capped_run maxit tol (map_run g r)"
  by (auto simp: capped_run_def fst_map_run snd_map_run)

lemma cnewton_vector_capped:
  "0 \<le> maxit \<Longrightarrow> capped_run maxit tol (cnewton_vector f solve x0 maxit tol h)"
  by (simp add: cnewton_vector_def capped_run_raise run_ok_capped vector_loop_ok Let_def
      split: sum.splits)

text \<open>
  Claim C7. For every natural number \<open>maxit\<close> (an integer \<open>maxit \<ge> 0\<close>), every residual,
  initial guess, tolerance and \<open>h\<close>: both solvers are total functions, so every call ends,
  returning or raising; the loop body executes at most \<open>maxit + 1\<close> times; a loop entered
  with \<^verbatim>\<open>iters > maxit\<close> raises nothing and returns the triple \<^verbatim>\<open>(x, iters, error)\<close>
  unchanged; and a call that returns with \<^verbatim>\<open>error >= tol\<close> still holding returns
  \<open>iters = maxit + 1\<close>, after exactly \<open>maxit + 1\<close> executions of the body.
\<close>

theorem cnewton_cnewtonv_capped:
  assumes "0 \<le> maxit"
  shows "capped_run maxit tol (cnewton fs fv solve x0 maxit tol h) \<and>
         capped_run maxit tol (cnewtonv f lgmres y0 maxit tol h) \<and>
         (maxit < iters \<longrightarrow>
            scalar_loop fs maxit tol h z zp iters error = (Inr (z, iters, error), []) \<and>
            vector_loop fv solve maxit tol h n x xp J iters error = (Inr (x, iters, error), []) \<and>
            cnewtonv_loop f lgmres maxit tol h n x iters error = (Inr (x, iters, error), []))"
proof (intro conjI impI)
  show "capped_run maxit tol (cnewton fs fv solve x0 maxit tol h)"
    using assms
    by (simp add: cnewton_def capped_run_raise capped_run_map_run run_ok_capped
        scalar_loop_ok cnewton_vector_capped split: sum.splits)
  show "capped_run maxit tol (cnewtonv f lgmres y0 maxit tol h)"
    using assms
    by (simp add: cnewtonv_def LinearOperator_probe capped_run_raise run_ok_capped
        cnewtonv_loop_ok Let_def split: sum.splits)
next
  assume "maxit < iters"
  then have g: "\<not> guard maxit tol iters error" by (simp add: guard_def)
  show "scalar_loop fs maxit tol h z zp iters error = (Inr (z, iters, error), [])"
    using g by (subst scalar_loop_unfold) simp
  show "vector_loop fv solve maxit tol h n x xp J iters error = (Inr (x, iters, error), [])"
    using g by (subst vector_loop_unfold) simp
  show "cnewtonv_loop f lgmres maxit tol h n x iters error = (Inr (x, iters, error), [])"
    using g by (subst cnewtonv_loop_unfold) simp
qed

text \<open>
  An instance: \<open>maxit = 0\<close> and \<open>tol = 1/10\<close>. After one execution of the body the error is
  \<open>1/2 \<ge> tol\<close>; the solvers return \<open>iters = 1 = maxit + 1\<close>, and a loop entered with
  \<open>iters = 1 > maxit\<close> returns its state.
\<close>

theorem capped_witness:
  "(0::int) \<le> 0 \<and>
   capped_run 0 (1/10) (cnewton (\<lambda>z. z * z - 2) (map (\<lambda>z. z * z - 2)) solve_small (PyInt 1) 0 (1/10) 1) \<and>
   capped_run 0 (1/10) (cnewtonv (map (\<lambda>z. z * z - 2)) krylov_small (PyList [1]) 0 (1/10) 1) \<and>
   cnewton (\<lambda>z. z * z - 2) (map (\<lambda>z. z * z - 2)) solve_small (PyInt 1) 0 (1/10) 1
     = (Inr (Scalar (3/2), 1, 1/2), [(0, 1)]) \<and>
   cnewtonv (map (\<lambda>z. z * z - 2)) krylov_small (PyList [1]) 0 (1/10) 1
     = (Inr ([3/2], 1, 1/2), [(0, 1)]) \<and>
   scalar_loop (\<lambda>z. z * z - 2) 0 (1/10) 1 (3/2) (3/2) 1 (1/2) = (Inr (3/2, 1, 1/2), []) \<and>
   vector_loop (map (\<lambda>z. z * z - 2)) solve_small 0 (1/10) 1 1 [3/2] [3/2] [[2]] 1 (1/2)
     = (Inr ([3/2], 1, 1/2), []) \<and>
   cnewtonv_loop (map (\<lambda>z. z * z - 2)) krylov_small 0 (1/10) 1 1 [3/2] 1 (1/2)
     = (Inr ([3/2], 1, 1/2), [])"
  using cnewton_cnewtonv_capped[where maxit = 0 and tol = "1/10" and h = 1
      and fs = "\<lambda>z. z * z - 2" and fv = "map (\<lambda>z. z * z - 2)" and solve = solve_small
      and ?x0.0 = "PyInt 1" and f = "map (\<lambda>z. z * z - 2)" and lgmres = krylov_small
      and ?y0.0 = "PyList [1]" and iters = 1 and z = "3/2" and zp = "3/2" and error = "1/2"
      and n = 1 and x = "[3/2]" and xp = "[3/2]" and J = "[[2]]"]
    run_scalar_capped[of "map (\<lambda>z. z * z - 2)" solve_small] run_free_capped
  by simp

lemma scalar_loop_once:
  "tol \<le> 1 \<Longrightarrow> scalar_loop f 0 tol h x x0 0 1 =
     (case scalar_iteration f h x x0 of
        Inl e \<Rightarrow> (Inl e, [(0, 1)])
      | Inr (x', error') \<Rightarrow> (Inr (x', 1, error'), [(0, 1)]))"
  by (subst scalar_loop_unfold, simp add: guard_def split: sum.splits prod.splits)
     (subst scalar_loop_unfold, simp add: guard_def)

lemma vector_loop_once:
  "tol \<le> 1 \<Longrightarrow> vector_loop f solve 0 tol h n x x0 J 0 1 =
     (case vector_iteration f solve h n x x0 J of
        Inl e \<Rightarrow> (Inl e, [(0, 1)])
      | Inr (x', error', J') \<Rightarrow> (Inr (x', 1, error'), [(0, 1)]))"
  by (subst vector_loop_unfold, simp add: guard_def split: sum.splits prod.splits)
     (subst vector_loop_unfold, simp add: guard_def)

lemma cnewtonv_loop_once:
  "tol \<le> 1 \<Longrightarrow> cnewtonv_loop f lgmres 0 tol h n x 0 1 =
     (case cnewtonv_iteration f lgmres 0 tol h n x of
        Inl e \<Rightarrow> (Inl e, [(0, 1)])
      | Inr (x', error') \<Rightarrow> (Inr (x', 1, error'), [(0, 1)]))"
  by (subst cnewtonv_loop_unfold, simp add: guard_def split: sum.splits prod.splits)
     (subst cnewtonv_loop_unfold, simp add: guard_def)

lemma once_run_map_run: "once_run r \<Longrightarrow> once_run (map_run g r)"
  by (auto simp: once_run_def fst_map_run fst_map_run_Inl snd_map_run)

lemma cnewton_vector_once:
  "tol \<le> 1 \<Longrightarrow> once_run (cnewton_vector f solve x0 0 tol h)"
  by (auto simp: cnewton_vector_def vector_loop_once once_run_def Let_def
      dest: py_list_error split: sum.splits)

text \<open>
  Claim C8, as the code has it. For every call with \<open>maxit = 0\<close> and \<open>tol \<le> 1.0\<close>: unless
  an exception before the loop ends the call, the loop body executes exactly once,
  entered with \<^verbatim>\<open>iters = 0\<close> and \<^verbatim>\<open>error = 1.0\<close>; and when the call returns, it returns
  \<open>iters = 1\<close>. (With \<open>tol > 1.0\<close> the initial \<^verbatim>\<open>error = 1.0\<close> fails the guard and the body
  never executes.)
\<close>

theorem maxit_zero_once:
  assumes "tol \<le> 1"
  shows "once_run (cnewton fs fv solve x0 0 tol h) \<and>
         once_run (cnewtonv f lgmres y0 0 tol h)"
proof
  show "once_run (cnewton fs fv solve x0 0 tol h)"
  proof (cases "py_type x0 = T_float \<or> py_type x0 = T_int")
    case True
    then obtain r where r: "py_float x0 = Inr r" using py_float_scalar by blast
    have "once_run (scalar_loop fs 0 tol h (of_real r) (of_real r) 0 1)"
      using assms by (auto simp: scalar_loop_once once_run_def split: sum.splits)
    then show ?thesis using True r by (simp add: cnewton_def once_run_map_run)
  next
    case False
    then show ?thesis using assms
      by (simp add: cnewton_def once_run_map_run cnewton_vector_once)
  qed
  show "once_run (cnewtonv f lgmres y0 0 tol h)"
    using assms
    by (auto simp: cnewtonv_def LinearOperator_probe cnewtonv_loop_once once_run_def Let_def
        dest: py_list_error split: sum.splits)
qed

text \<open>
  An instance: \<open>maxit = 0\<close> and \<open>tol = 1/10\<close>; one execution of the body, \<open>iters = 1\<close>.
\<close>

theorem maxit_zero_witness:
  "(1/10 :: real) \<le> 1 \<and>
   once_run (cnewton (\<lambda>z. z * z - 2) (map (\<lambda>z. z * z - 2)) solve_small (PyInt 1) 0 (1/10) 1) \<and>
   once_run (cnewtonv (map (\<lambda>z. z * z - 2)) krylov_small (PyList [1]) 0 (1/10) 1) \<and>
   cnewton (\<lambda>z. z * z - 2) (map (\<lambda>z. z * z - 2)) solve_small (PyInt 1) 0 (1/10) 1
     = (Inr (Scalar (3/2), 1, 1/2), [(0, 1)]) \<and>
   cnewtonv (map (\<lambda>z. z * z - 2)) krylov_small (PyList [1]) 0 (1/10) 1
     = (Inr ([3/2], 1, 1/2), [(0, 1)])"
  using maxit_zero_once[where tol = "1/10" and h = 1
      and fs = "\<lambda>z. z * z - 2" and fv = "map (\<lambda>z. z * z - 2)" and solve = solve_small
      and ?x0.0 = "PyInt 1" and f = "map (\<lambda>z. z * z - 2)" and lgmres = krylov_small
      and ?y0.0 = "PyList [1]"]
    run_scalar_capped[of "map (\<lambda>z. z * z - 2)" solve_small] run_free_capped
  by simp

text \<open>
  Claim C8 as stated fails for \<open>tol = 2\<close>: with \<open>maxit = 0\<close> the initial \<^verbatim>\<open>error = 1.0\<close> is
  below \<open>tol\<close>, the body never executes and both solvers return \<open>iters = 0\<close>.
\<close>

theorem maxit_zero_counterexample:
  "cnewton (\<lambda>z. z * z - 2) (map (\<lambda>z. z * z - 2)) solve_small (PyFloat 1) 0 2 1
     = (Inr (Scalar 1, 0, 1), []) \<and>
   cnewtonv (map (\<lambda>z. z * z - 2)) krylov_small (PyList [1]) 0 2 1 = (Inr ([1], 0, 1), [])"
  by (simp add: eval_defs)

section \<open>Before the loop: the dimension check and the dispatch\<close>

text \<open>
  Claim C6. For every vector initial guess \<^verbatim>\<open>x0\<close> (a list, tuple or array with elements
  \<open>l\<close>): if \<^verbatim>\<open>f(x0)\<close> has a length different from \<^verbatim>\<open>len(x0)\<close>, both \<^verbatim>\<open>cnewton\<close> and
  \<^verbatim>\<open>cnewtonv\<close> raise, the loop body never executes (the log is empty) and nothing is
  returned. In \<^verbatim>\<open>cnewton\<close> the exception is \<^verbatim>\<open>NameError\<close>, from the undefined name
  \<^verbatim>\<open>InterruptExecution\<close> in the \<^verbatim>\<open>raise\<close> statement; in \<^verbatim>\<open>cnewtonv\<close> the
  constructor of the operator raises \<^verbatim>\<open>ValueError\<close> before the check is reached.
\<close>

theorem dimension_mismatch_raises:
  assumes "py_list x0 = Inr l" and "length (f l) \<noteq> length l"
  shows "cnewton fs f solve x0 maxit tol h = (Inl NameError, []) \<and>
         cnewtonv f lgmres x0 maxit tol h = (Inl ValueError, [])"
  using assms py_list_vector[OF assms(1)]
  by (simp add: cnewton_def cnewton_vector_def cnewtonv_def map_run_def LinearOperator_probe)

text \<open>
  An instance: a residual that returns three components, called with two unknowns.
\<close>

theorem dimension_mismatch_witness:
  "py_list (PyList [0, 0]) = Inr [0, 0] \<and>
   length ((\<lambda>v. [0, 0, 0 :: complex]) [0, 0]) \<noteq> length [0, 0 :: complex] \<and>
   cnewton (\<lambda>z. z) (\<lambda>v. [0, 0, 0]) solve_small (PyList [0, 0]) 100 (1/10) (1/1000)
     = (Inl NameError, []) \<and>
   cnewtonv (\<lambda>v. [0, 0, 0]) krylov_small (PyList [0, 0]) 100 (1/10) (1/1000)
     = (Inl ValueError, [])"
  using dimension_mismatch_raises[of "PyList [0, 0]" "[0, 0]" "\<lambda>v. [0, 0, 0]" "\<lambda>z. z"
      solve_small 100 "1/10" "1/1000" krylov_small]
  by simp




section \<open>One iteration\<close>

text \<open>
  Claim C4. In the scalar branch, every execution of the loop body (one that starts with
  the guard true and does not divide by zero) replaces \<open>x\<close> by
  \<open>x - h\<cdot>f(x) / Im(f(x + i\<cdot>h))\<close>, sets \<^verbatim>\<open>error\<close> to the absolute value of the
  difference between the new \<open>x\<close> and the previous iterate \<^verbatim>\<open>x0\<close>, makes the new \<open>x\<close>
  the previous iterate, and increments \<^verbatim>\<open>iters\<close>.
\<close>

theorem scalar_update:
  assumes "guard maxit tol iters error"
    and "Im (f (x + \<i> * of_real h)) \<noteq> 0"
    and "x' = x - of_real h * f x / of_real (Im (f (x + \<i> * of_real h)))"
  shows "scalar_loop f maxit tol h x x0 iters error =
           apsnd (Cons (iters, error))
             (scalar_loop f maxit tol h x' x' (iters + 1) (cmod (x' - x0)))"
  using assms by (subst scalar_loop_unfold) (simp add: scalar_iteration_def Let_def)

text \<open>
  An instance: \<open>f(z) = z\<^sup>2 - 2\<close> at \<open>x = 1\<close> with \<open>h = 1\<close>. The imaginary part of
  \<open>f(1 + i)\<close> is \<open>2\<close>, the new iterate is \<open>1 - (-1)/2 = 3/2\<close> and the new error \<open>1/2\<close>.
\<close>

theorem scalar_update_witness:
  "guard 5 (1/10) 0 1 \<and>
   Im ((\<lambda>z. z * z - 2) (1 + \<i> * complex_of_real 1)) \<noteq> 0 \<and>
   scalar_loop (\<lambda>z. z * z - 2) 5 (1/10) 1 1 1 0 1 =
     apsnd (Cons (0, 1)) (scalar_loop (\<lambda>z. z * z - 2) 5 (1/10) 1 (3/2) (3/2) 1 (1/2))"
  using scalar_update[of 5 "1/10" 0 1 "\<lambda>z. z * z - 2" 1 1 "3/2" 1]
  by (simp add: guard_def)

lemma fill_column_spec:
  "fill_column J j F rows = Inr J' \<Longrightarrow>
     length J' = length J \<and>
     (\<forall>i<length J. length (J' ! i) = length (J ! i)) \<and>
     (\<forall>i\<in>set rows. i < length F \<and> i < length J \<and> J' ! i ! j = F ! i) \<and>
     (\<forall>i<length J. \<forall>k. k \<noteq> j \<longrightarrow> J' ! i ! k = J ! i ! k) \<and>
     (\<forall>i. i \<notin> set rows \<longrightarrow> J' ! i = J ! i)"
proof (induction rows arbitrary: J)
  case Nil
  then show ?case by simp
next
  case (Cons i rows)
  from Cons.prems obtain J1 where
    i: "i < length F" "i < length J" "j < length (J ! i)"
    and J1: "J1 = J[i := (J ! i)[j := F ! i]]"
    and rest: "fill_column J1 j F rows = Inr J'"
    by (auto simp: np_getitem_def mat_setitem_def split: if_splits sum.splits)
  note IH = Cons.IH[OF rest]
  have len: "length J1 = length J" by (simp add: J1)
  have a: "length J' = length J" using IH len by simp
  have b: "\<forall>r<length J. length (J' ! r) = length (J ! r)"
  proof (intro allI impI)
    fix r assume "r < length J"
    then have "length (J' ! r) = length (J1 ! r)" using IH len by simp
    also have "\<dots> = length (J ! r)" using \<open>r < length J\<close>
      by (cases "r = i") (simp_all add: J1)
    finally show "length (J' ! r) = length (J ! r)" .
  qed
  have c: "\<forall>r\<in>set (i # rows). r < length F \<and> r < length J \<and> J' ! r ! j = F ! r"
  proof
    fix r assume r: "r \<in> set (i # rows)"
    show "r < length F \<and> r < length J \<and> J' ! r ! j = F ! r"
    proof (cases "r \<in> set rows")
      case True
      then show ?thesis using IH len by simp
    next
      case False
      then have "r = i" using r by simp
      moreover have "J' ! i = J1 ! i" using IH False \<open>r = i\<close> by simp
      ultimately show ?thesis using i by (simp add: J1)
    qed
  qed
  have d: "\<forall>r<length J. \<forall>k. k \<noteq> j \<longrightarrow> J' ! r ! k = J ! r ! k"
  proof (intro allI impI)
    fix r k assume r: "r < length J" and k: "k \<noteq> j"
    have "J' ! r ! k = J1 ! r ! k" using IH r len k by simp
    also have "\<dots> = J ! r ! k" using r k by (cases "r = i") (simp_all add: J1)
    finally show "J' ! r ! k = J ! r ! k" .
  qed
  have e: "\<forall>r. r \<notin> set (i # rows) \<longrightarrow> J' ! r = J ! r"
  proof (intro allI impI)
    fix r assume "r \<notin> set (i # rows)"
    then have "r \<notin> set rows" "r \<noteq> i" by auto
    then have "J' ! r = J1 ! r" using IH by simp
    then show "J' ! r = J ! r" using \<open>r \<noteq> i\<close> by (simp add: J1)
  qed
  show ?case using a b c d e by blast
qed

lemma jacobian_columns_spec:
  "jacobian_columns f h x n J cols = Inr J' \<Longrightarrow>
     length J' = length J \<and>
     (\<forall>i<length J. length (J' ! i) = length (J ! i)) \<and>
     (\<forall>j\<in>set cols. j < length x \<and>
        (\<forall>i<n. J' ! i ! j = Im (f (x[j := x ! j + \<i> * of_real h]) ! i))) \<and>
     (\<forall>i<length J. \<forall>k. k \<notin> set cols \<longrightarrow> J' ! i ! k = J ! i ! k)"
proof (induction cols arbitrary: J)
  case Nil
  then show ?case by simp
next
  case (Cons j cols)
  define F where "F = np_imag (f (x[j := x ! j + \<i> * of_real h]))"
  from Cons.prems obtain J1 where
    j: "j < length x"
    and J1: "fill_column J j F [0..<n] = Inr J1"
    and rest: "jacobian_columns f h x n J1 cols = Inr J'"
    by (auto simp: np_getitem_def np_setitem_def F_def Let_def split: if_splits sum.splits)
  note IH = Cons.IH[OF rest]
  note FC = fill_column_spec[OF J1]
  have len: "length J1 = length J" using FC by simp
  have a: "length J' = length J" using IH len by simp
  have b: "\<forall>r<length J. length (J' ! r) = length (J ! r)"
    using IH FC len by simp
  have c: "\<forall>c\<in>set (j # cols). c < length x \<and>
        (\<forall>i<n. J' ! i ! c = Im (f (x[c := x ! c + \<i> * of_real h]) ! i))"
  proof
    fix c assume c: "c \<in> set (j # cols)"
    show "c < length x \<and> (\<forall>i<n. J' ! i ! c = Im (f (x[c := x ! c + \<i> * of_real h]) ! i))"
    proof (cases "c \<in> set cols")
      case True
      then show ?thesis using IH by simp
    next
      case False
      then have cj: "c = j" using c by simp
      have "\<forall>i<n. J' ! i ! j = Im (f (x[j := x ! j + \<i> * of_real h]) ! i)"
      proof (intro allI impI)
        fix i assume i: "i < n"
        then have iF: "i < length F" and J1i: "J1 ! i ! j = F ! i" using FC by simp_all
        have iJ: "i < length J" using FC i by simp
        have "J' ! i ! j = J1 ! i ! j" using IH False cj iJ len by simp
        also have "\<dots> = Im (f (x[j := x ! j + \<i> * of_real h]) ! i)"
          using J1i iF by (simp add: F_def np_imag_def)
        finally show "J' ! i ! j = Im (f (x[j := x ! j + \<i> * of_real h]) ! i)" .
      qed
      then show ?thesis using cj j by simp
    qed
  qed
  have d: "\<forall>i<length J. \<forall>k. k \<notin> set (j # cols) \<longrightarrow> J' ! i ! k = J ! i ! k"
  proof (intro allI impI)
    fix i k assume i: "i < length J" and k: "k \<notin> set (j # cols)"
    then have "J' ! i ! k = J1 ! i ! k" using IH len by simp
    also have "\<dots> = J ! i ! k" using FC i k by simp
    finally show "J' ! i ! k = J ! i ! k" .
  qed
  show ?case using a b c d by blast
qed

text \<open>
  Claim C2, as the code has it. In the dense vector branch, every execution of the loop
  body that completes, started with an \<open>n\<close> by \<open>n\<close> array \<open>J\<close> and an iterate \<open>x\<close> of
  length \<open>n\<close>: fills \<open>J\<close> column by column, column \<open>j\<close> being the imaginary part of
  \<open>f(x + i\<cdot>h\<cdot>e\<^sub>j)\<close>, not divided by \<open>h\<close> (so \<open>J\<close> is \<open>h\<close> times the complex-step
  Jacobian); evaluates \<open>f\<close> at the iterate \<open>x\<close>; solves \<open>J\<cdot>b = f(x)\<close>; updates \<open>x\<close> to
  \<open>x - h\<cdot>b\<close>; sets \<^verbatim>\<open>error\<close> to the infinity norm of the difference between the new
  \<open>x\<close> and the previous iterate; and continues the loop with \<^verbatim>\<open>iters + 1\<close>.
\<close>

theorem dense_iteration:
  assumes "guard maxit tol iters error"
    and "square n J"
    and "length x = n"
    and "vector_iteration f solve h n x x0 J = Inr (x', error', J')"
  shows "square n J' \<and>
         (\<forall>j<n. \<forall>i<n. J' ! i ! j = Im (f (complex_step x h (unit_vec n j)) ! i)) \<and>
         (\<exists>b xx2. solve J' (f x) = Inr b \<and>
            np_sub x (np_scale (of_real h) b) = Inr x' \<and>
            (length b = n \<longrightarrow> x' = map2 (\<lambda>u v. u - of_real h * v) x b) \<and>
            np_sub x' x0 = Inr xx2 \<and>
            (length b = n \<and> length x0 = n \<longrightarrow> xx2 = map2 (\<lambda>u v. u - v) x' x0) \<and>
            norm_inf xx2 = Inr error' \<and> error' = Max (cmod ` set xx2)) \<and>
         vector_loop f solve maxit tol h n x x0 J iters error =
           apsnd (Cons (iters, error))
             (vector_loop f solve maxit tol h n x' x' J' (iters + 1) error')"
proof -
  from assms(4) obtain b xx2 where
    jac: "jacobian_columns f h x n J [0..<n] = Inr J'"
    and b: "solve J' (f x) = Inr b"
    and x': "np_sub x (np_scale (of_real h) b) = Inr x'"
    and xx2: "np_sub x' x0 = Inr xx2"
    and err: "norm_inf xx2 = Inr error'"
    by (auto simp: vector_iteration_def Let_def split: sum.splits)
  note spec = jacobian_columns_spec[OF jac]
  have sq: "square n J'"
    using spec assms(2) by (simp add: square_nth)
  have ent: "\<forall>j<n. \<forall>i<n. J' ! i ! j = Im (f (complex_step x h (unit_vec n j)) ! i)"
  proof (intro allI impI)
    fix j i assume j: "j < n" and i: "i < n"
    have "J' ! i ! j = Im (f (x[j := x ! j + \<i> * of_real h]) ! i)"
      using spec j i by simp
    then show "J' ! i ! j = Im (f (complex_step x h (unit_vec n j)) ! i)"
      using complex_step_unit[of j x h] j assms(3) by simp
  qed
  have loop: "vector_loop f solve maxit tol h n x x0 J iters error =
           apsnd (Cons (iters, error))
             (vector_loop f solve maxit tol h n x' x' J' (iters + 1) error')"
    using assms(1,4) by (subst vector_loop_unfold) simp
  have x'_eq: "x' = map2 (\<lambda>u v. u - of_real h * v) x b" if "length b = n"
  proof -
    have "map2 (\<lambda>u v. u - v) x (np_scale (of_real h) b) = map2 (\<lambda>u v. u - of_real h * v) x b"
      by (simp add: np_scale_def zip_map2 split_def)
    then show ?thesis using x' that assms(3) by (simp add: np_sub_same_length np_scale_def)
  qed
  have xx2_eq: "xx2 = map2 (\<lambda>u v. u - v) x' x0" if "length b = n \<and> length x0 = n"
    using xx2 x'_eq that assms(3) by (simp add: np_sub_same_length)
  show ?thesis
    using sq ent b x' xx2 err norm_inf_Max[OF err] loop x'_eq xx2_eq by blast
qed

text \<open>
  An instance: the system of the notebook,
  \<open>f(x) = (x\<^sub>1 + x\<^sub>2\<^sup>2/4 - 5/4, x\<^sub>1\<^sup>2/4 + x\<^sub>2 - 5/4)\<close>, at \<open>x = (0, 0)\<close> with
  \<open>h = 1/1000\<close>. The assembled matrix is \<open>h\<close> times the identity, the solve gives
  \<open>b = (-1250, -1250)\<close> and the new iterate is \<open>x - h\<cdot>b = (5/4, 5/4)\<close>.
\<close>

theorem dense_iteration_witness:
  "guard 5 (1/10) 0 1 \<and> square 2 (np_zeros2 2 2) \<and> length [0, 0 :: complex] = 2 \<and>
   vector_iteration (\<lambda>v. [v ! 0 + v ! 1 * v ! 1 / 4 - 5 / 4, v ! 0 * v ! 0 / 4 + v ! 1 - 5 / 4])
      solve_small (1/1000) 2 [0, 0] [0, 0] (np_zeros2 2 2)
     = Inr ([5/4, 5/4], 5/4, [[1/1000, 0], [0, 1/1000]]) \<and>
   square 2 [[1/1000, 0], [0, 1/1000]] \<and>
   [[1/1000, 0], [0, 1/1000 :: real]] ! 0 ! 1 =
     Im ((\<lambda>v. [v ! 0 + v ! 1 * v ! 1 / 4 - 5 / 4, v ! 0 * v ! 0 / 4 + v ! 1 - 5 / 4])
           (complex_step [0, 0] (1/1000) (unit_vec 2 1)) ! 0) \<and>
   vector_loop (\<lambda>v. [v ! 0 + v ! 1 * v ! 1 / 4 - 5 / 4, v ! 0 * v ! 0 / 4 + v ! 1 - 5 / 4])
      solve_small 5 (1/10) (1/1000) 2 [0, 0] [0, 0] (np_zeros2 2 2) 0 1 =
     apsnd (Cons (0, 1))
       (vector_loop (\<lambda>v. [v ! 0 + v ! 1 * v ! 1 / 4 - 5 / 4, v ! 0 * v ! 0 / 4 + v ! 1 - 5 / 4])
          solve_small 5 (1/10) (1/1000) 2 [5/4, 5/4] [5/4, 5/4] [[1/1000, 0], [0, 1/1000]]
          (0 + 1) (5/4))"
proof -
  have g: "guard 5 (1/10) 0 1" by (simp add: guard_def)
  have sq: "square 2 (np_zeros2 2 2)" by (simp add: square_def np_zeros2_def numeral_2_eq_2)
  have len: "length [0, 0 :: complex] = 2" by simp
  note th = dense_iteration[OF g sq len iteration_2d]
  from th have e: "[[1/1000, 0], [0, 1/1000 :: real]] ! 0 ! 1 =
     Im ((\<lambda>v. [v ! 0 + v ! 1 * v ! 1 / 4 - 5 / 4, v ! 0 * v ! 0 / 4 + v ! 1 - 5 / 4])
           (complex_step [0, 0] (1/1000) (unit_vec 2 1)) ! 0)"
    by (elim conjE) (drule spec[of _ 1], simp, drule spec[of _ 0], simp)
  show ?thesis using g sq len iteration_2d th e by blast
qed

text \<open>
  Claim C2 as stated fails on the division by \<open>h\<close>: for \<open>f(x) = x\<close> in dimension one with
  \<open>h = 1/2\<close> the matrix the iteration leaves is \<open>[[1/2]]\<close>, the imaginary part of
  \<open>f(1 + i/2)\<close>, while that imaginary part divided by \<open>h\<close> is \<open>1\<close>.
\<close>

theorem dense_iteration_counterexample:
  "vector_iteration (\<lambda>v. v) solve_small (1/2) 1 [1] [1] [[0]] = Inr ([0], 1, [[1/2]]) \<and>
   [[1/2 :: real]] ! 0 ! 0 \<noteq> Im ((\<lambda>v. v) (complex_step [1] (1/2) (unit_vec 1 0)) ! 0) / (1/2)"
  by (simp add: eval_defs complex_step_def unit_vec_def)



section \<open>Affine residuals: both solvers take the Newton step\<close>

lemma fill_column_total:
  "\<forall>i\<in>set rows. i < length F \<and> i < length J \<and> j < length (J ! i) \<Longrightarrow>
     \<exists>J'. fill_column J j F rows = Inr J'"
proof (induction rows arbitrary: J)
  case Nil
  then show ?case by simp
next
  case (Cons i rows)
  define J1 where "J1 = J[i := (J ! i)[j := F ! i]]"
  have "\<forall>r\<in>set rows. r < length F \<and> r < length J1 \<and> j < length (J1 ! r)"
  proof
    fix r assume "r \<in> set rows"
    then have r: "r < length F" "r < length J" "j < length (J ! r)" using Cons.prems by auto
    then show "r < length F \<and> r < length J1 \<and> j < length (J1 ! r)"
      by (cases "r = i") (simp_all add: J1_def)
  qed
  then obtain J' where "fill_column J1 j F rows = Inr J'" using Cons.IH by blast
  then show ?case using Cons.prems
    by (simp add: np_getitem_def mat_setitem_def J1_def)
qed

lemma jacobian_columns_total:
  assumes "square n J" and "n \<le> length x"
    and "\<forall>z. length z = length x \<longrightarrow> n \<le> length (f z)"
    and "\<forall>j\<in>set cols. j < n"
  shows "\<exists>J'. jacobian_columns f h x n J cols = Inr J'"
  using assms(1,4)
proof (induction cols arbitrary: J)
  case Nil
  then show ?case by simp
next
  case (Cons j cols)
  define F where "F = np_imag (f (x[j := x ! j + \<i> * of_real h]))"
  have j: "j < n" using Cons.prems by simp
  have lenF: "n \<le> length F" using assms(3) by (simp add: F_def np_imag_def)
  have "\<forall>i\<in>set [0..<n]. i < length F \<and> i < length J \<and> j < length (J ! i)"
    using Cons.prems(1) j lenF by (simp add: square_nth)
  then obtain J1 where J1: "fill_column J j F [0..<n] = Inr J1"
    using fill_column_total by blast
  have "square n J1"
    using fill_column_spec[OF J1] Cons.prems(1) by (simp add: square_nth)
  then obtain J' where "jacobian_columns f h x n J1 cols = Inr J'"
    using Cons.IH Cons.prems(2) by auto
  then show ?case using J1 j assms(2)
    by (simp add: np_getitem_def np_setitem_def F_def Let_def)
qed

lemma length_mat_vec: "length (mat_vec A v) = length A"
  by (simp add: mat_vec_def)

lemma mat_vec_nth:
  "i < length A \<Longrightarrow> mat_vec A v ! i = sum_list (map2 (\<lambda>a u. of_real a * u) (A ! i) v)"
  by (simp add: mat_vec_def)

lemma row_scale_mat:
  "sum_list (map2 (\<lambda>a u. of_real a * u) (map (\<lambda>a. h * a) row) (v :: vec))
     = sum_list (map2 (\<lambda>a u. of_real a * u) row (map (\<lambda>u. of_real h * u) v))"
proof (induction row arbitrary: v)
  case Nil
  then show ?case by simp
next
  case (Cons a row)
  then show ?case by (cases v) (simp_all add: algebra_simps)
qed

lemma row_scale_vec:
  "sum_list (map2 (\<lambda>a u. of_real a * u) row (map (\<lambda>u. c * u) (v :: vec)))
     = c * sum_list (map2 (\<lambda>a u. of_real a * u) row v)"
proof (induction row arbitrary: v)
  case Nil
  then show ?case by simp
next
  case (Cons a row)
  then show ?case by (cases v) (simp_all add: algebra_simps)
qed

lemma row_Im:
  "Im (sum_list (map2 (\<lambda>a u. of_real a * u) row (v :: vec))) = sum_list (map2 (\<lambda>a u. a * Im u) row v)"
proof (induction row arbitrary: v)
  case Nil
  then show ?case by simp
next
  case (Cons a row)
  then show ?case by (cases v) simp_all
qed

lemma row_zero:
  "\<forall>u\<in>set v. Im u = 0 \<Longrightarrow> sum_list (map2 (\<lambda>a u. a * Im u) row v) = 0"
proof (induction row arbitrary: v)
  case Nil
  then show ?case by simp
next
  case (Cons a row)
  then show ?case by (cases v) simp_all
qed

lemma row_delta:
  "j < length v \<Longrightarrow> length row = length v \<Longrightarrow> \<forall>u\<in>set v. Im u = 0 \<Longrightarrow>
     sum_list (map2 (\<lambda>a u. a * Im u) row (v[j := v ! j + \<i> * of_real h])) = row ! j * h"
proof (induction row arbitrary: v j)
  case Nil
  then show ?case by simp
next
  case (Cons a row)
  then obtain u v' where v: "v = u # v'" by (cases v) auto
  show ?case
  proof (cases j)
    case 0
    then show ?thesis using Cons.prems v by (simp add: row_zero)
  next
    case (Suc k)
    then show ?thesis using Cons.prems v Cons.IH[of k v'] by simp
  qed
qed

lemma mat_vec_scale_mat: "mat_vec (mat_scale h A) v = mat_vec A (np_scale (of_real h) v)"
  by (simp add: mat_vec_def mat_scale_def np_scale_def row_scale_mat comp_def)

lemma mat_vec_scale_vec: "mat_vec A (np_scale c v) = np_scale c (mat_vec A v)"
  by (simp add: mat_vec_def np_scale_def row_scale_vec comp_def)

lemma np_scale_cancel:
  "c \<noteq> 0 \<Longrightarrow> np_scale c u = np_scale c v \<Longrightarrow> u = v"
proof -
  assume c: "c \<noteq> 0" and "np_scale c u = np_scale c v"
  then have "map (\<lambda>z. (1 / c) * z) (np_scale c u) = map (\<lambda>z. (1 / c) * z) (np_scale c v)"
    by simp
  then show "u = v" using c by (simp add: np_scale_def comp_def)
qed

lemma affine_nth:
  "i < length A \<Longrightarrow> length c = length A \<Longrightarrow>
     affine A c z ! i = mat_vec A z ! i + of_real (c ! i)"
  by (simp add: affine_def length_mat_vec)

lemma length_affine: "length c = length A \<Longrightarrow> length (affine A c z) = length A"
  by (simp add: affine_def length_mat_vec)

text \<open>The assembled matrix of an affine residual at a real point is \<open>h\<cdot>A\<close>.\<close>

lemma jacobian_affine:
  assumes sq: "square n A" and c: "length c = n" and xr: "length xr = n"
    and J0: "square n J0"
  shows "jacobian_columns (affine A c) h (map of_real xr) n J0 [0..<n] = Inr (mat_scale h A)"
proof -
  define x :: vec where "x = map of_real xr"
  have lx: "length x = n" by (simp add: x_def xr)
  have real: "\<forall>u\<in>set x. Im u = 0" by (auto simp: x_def)
  have lenA: "length A = n" using sq by (simp add: square_nth)
  have "\<forall>z. length z = length x \<longrightarrow> n \<le> length (affine A c z)"
    using c lenA by (simp add: length_affine)
  then obtain J' where J': "jacobian_columns (affine A c) h x n J0 [0..<n] = Inr J'"
    using jacobian_columns_total[of n J0 x "affine A c" "[0..<n]" h] J0 lx by auto
  note spec = jacobian_columns_spec[OF J']
  have sqJ': "square n J'" using spec J0 by (simp add: square_nth)
  have "J' = mat_scale h A"
  proof (rule nth_equalityI)
    show "length J' = length (mat_scale h A)"
      using sqJ' lenA by (simp add: square_nth mat_scale_def)
  next
    fix i assume "i < length J'"
    then have i: "i < n" using sqJ' by (simp add: square_nth)
    have rowA: "length (A ! i) = n" using sq i by (simp add: square_nth)
    show "J' ! i = mat_scale h A ! i"
    proof (rule nth_equalityI)
      show "length (J' ! i) = length (mat_scale h A ! i)"
        using sqJ' i lenA rowA by (simp add: square_nth mat_scale_def)
    next
      fix j assume "j < length (J' ! i)"
      then have j: "j < n" using sqJ' i by (simp add: square_nth)
      have "J' ! i ! j = Im (affine A c (x[j := x ! j + \<i> * of_real h]) ! i)"
        using spec i j by simp
      also have "\<dots> = Im (mat_vec A (x[j := x ! j + \<i> * of_real h]) ! i)"
        using i lenA c by (simp add: affine_nth)
      also have "\<dots> = sum_list (map2 (\<lambda>a u. a * Im u) (A ! i) (x[j := x ! j + \<i> * of_real h]))"
        using i lenA by (simp add: mat_vec_nth row_Im)
      also have "\<dots> = A ! i ! j * h"
        using row_delta[of j x "A ! i" h] j lx rowA real by simp
      finally show "J' ! i ! j = mat_scale h A ! i ! j"
        using i j lenA rowA by (simp add: mat_scale_def)
    qed
  qed
  then show ?thesis using J' by (simp add: x_def)
qed

lemma row_complex_step:
  "\<forall>u\<in>set x. Im u = 0 \<Longrightarrow> \<forall>u\<in>set d. Im u = 0 \<Longrightarrow> length x = length d \<Longrightarrow>
     of_real (sum_list (map2 (\<lambda>a u. a * Im u) row (complex_step x h d)))
       = sum_list (map2 (\<lambda>a u. of_real a * u) row (np_scale (of_real h) d))"
proof (induction row arbitrary: x d)
  case Nil
  then show ?case by simp
next
  case (Cons a row)
  show ?case
  proof (cases x)
    case Nil
    then show ?thesis using Cons.prems(3) by (simp add: complex_step_def np_scale_def)
  next
    case x: (Cons u x')
    show ?thesis
    proof (cases d)
      case Nil
      then show ?thesis by (simp add: complex_step_def np_scale_def)
    next
      case d: (Cons w d')
      have w: "w = of_real (Re w)" using Cons.prems(2) d by (simp add: complex_eq_iff)
      have IH: "of_real (sum_list (map2 (\<lambda>a u. a * Im u) row (complex_step x' h d')))
         = sum_list (map2 (\<lambda>a u. of_real a * u) row (np_scale (of_real h) d'))"
        using Cons.IH[of x' d'] Cons.prems x d by simp
      have "Im (u + \<i> * of_real h * w) = h * Re w" using Cons.prems(1) x by simp
      then have "complex_of_real (a * Im (u + \<i> * of_real h * w)) = of_real a * (of_real h * w)"
        by (subst (2) w) simp
      then show ?thesis
        using IH by (simp add: x d complex_step_def np_scale_def)
    qed
  qed
qed

text \<open>
  Claim C1. Let \<open>f(z) = A\<cdot>z + c\<close> be an affine residual with real \<open>n\<close> by \<open>n\<close> matrix
  \<open>A\<close>, real \<open>c\<close> and an inverse \<open>K\<close> of \<open>A\<close>, let \<open>x\<close> be a real iterate and
  \<open>h \<noteq> 0\<close>. If the dense solve returns an exact solution \<open>b\<close> of \<open>(h\<cdot>A)\<cdot>b = f(x)\<close>, and
  \<^verbatim>\<open>lgmres\<close> returns a real \<open>d\<close> that the operator \<open>u \<mapsto> Im(f(x + i\<cdot>h\<cdot>u))\<close> maps exactly to
  the right-hand side \<open>h\<cdot>f(x)\<close>, then one iteration of the dense vector branch and one
  iteration of \<^verbatim>\<open>cnewtonv\<close> both produce the iterate \<open>x - K\<cdot>f(x)\<close>, the standard Newton
  step; the matrix the dense branch assembles is \<open>h\<cdot>A\<close>.
\<close>

theorem affine_newton_step:
  assumes A: "square n A" and c: "length c = n" and xr: "length xr = n" and n: "0 < n"
    and h: "h \<noteq> 0" and K: "inverse_of n K A"
    and f: "f = affine A c" and x: "x = map of_real xr"
    and J0: "square n J0" and x0: "length x0 = n"
    and dense: "solve (mat_scale h A) (f x) = Inr b" "length b = n"
      "mat_vec (mat_scale h A) b = f x"
    and krylov:
      "lgmres (operator_at n f h x) (np_scale (of_real h) (f x)) x tol maxit tol
         = Inr (d, info)"
      "length d = n" "list_all (\<lambda>z. Im z = 0) d"
      "mv f h x d = Inr r" "map of_real r = np_scale (of_real h) (f x)"
  shows "\<exists>e1 e2.
           vector_iteration f solve h n x x0 J0 = Inr (newton_step K f x, e1, mat_scale h A) \<and>
           cnewtonv_iteration f lgmres maxit tol h n x = Inr (newton_step K f x, e2)"
proof -
  have lx: "length x = n" by (simp add: x xr)
  have lenA: "length A = n" using A by (simp add: square_nth)
  have lenK: "length K = n" using K by (simp add: inverse_of_def square_nth)
  have inv: "\<And>v. length v = n \<Longrightarrow> mat_vec K (mat_vec A v) = v"
    using K by (simp add: inverse_of_def)
  have lnewton: "length (newton_step K f x) = n"
    by (simp add: newton_step_def length_mat_vec lenK lx)
  have newton_ne: "newton_step K f x \<noteq> []" using lnewton n by auto
  \<comment> \<open>the dense iteration\<close>
  have jac: "jacobian_columns f h x n J0 [0..<n] = Inr (mat_scale h A)"
    unfolding f x using A c xr J0 by (rule jacobian_affine)
  have "mat_vec K (f x) = mat_vec K (mat_vec A (np_scale (of_real h) b))"
    using dense(3) by (simp add: mat_vec_scale_mat)
  also have "\<dots> = np_scale (of_real h) b"
    using inv[of "np_scale (of_real h) b"] dense(2) by (simp add: np_scale_def)
  finally have hb: "np_scale (of_real h) b = mat_vec K (f x)" by simp
  have x1: "np_sub x (np_scale (of_real h) b) = Inr (newton_step K f x)"
    unfolding hb by (simp add: np_sub_same_length newton_step_def length_mat_vec lenK lx)
  obtain xx2 where xx2: "np_sub (newton_step K f x) x0 = Inr xx2" and lxx2: "length xx2 = n"
    using lnewton x0 by (simp add: np_sub_same_length)
  obtain e1 where e1: "norm_inf xx2 = Inr e1"
    using norm_inf_nonempty[of xx2] lxx2 n by auto
  have dense_it:
    "vector_iteration f solve h n x x0 J0 = Inr (newton_step K f x, e1, mat_scale h A)"
    using jac dense(1) x1 xx2 e1 by (simp add: vector_iteration_def)
  \<comment> \<open>the matrix-free iteration\<close>
  have realx: "\<forall>u\<in>set x. Im u = 0" by (auto simp: x)
  have reald: "\<forall>u\<in>set d. Im u = 0" using krylov(3) by (simp add: list_all_iff)
  have r: "r = map Im (f (complex_step x h d))"
    using krylov(4) mv_complex_step[of d x f h] krylov(2) lx by simp
  have "map complex_of_real r = mat_vec A (np_scale (of_real h) d)"
  proof (rule nth_equalityI)
    show "length (map complex_of_real r) = length (mat_vec A (np_scale (of_real h) d))"
      using r by (simp add: f length_affine c lenA length_mat_vec)
  next
    fix i assume "i < length (map complex_of_real r)"
    then have i: "i < n" using r by (simp add: f length_affine c lenA)
    have "map complex_of_real r ! i = of_real (Im (affine A c (complex_step x h d) ! i))"
      using i r by (simp add: f length_affine c lenA)
    also have "\<dots> = of_real (Im (mat_vec A (complex_step x h d) ! i))"
      using i lenA c by (simp add: affine_nth)
    also have "\<dots> = of_real (sum_list (map2 (\<lambda>a u. a * Im u) (A ! i) (complex_step x h d)))"
      using i lenA by (simp add: mat_vec_nth row_Im)
    also have "\<dots> = sum_list (map2 (\<lambda>a u. of_real a * u) (A ! i) (np_scale (of_real h) d))"
      using realx reald krylov(2) lx by (simp add: row_complex_step)
    finally show "map complex_of_real r ! i = mat_vec A (np_scale (of_real h) d) ! i"
      using i lenA by (simp add: mat_vec_nth)
  qed
  then have "mat_vec A (np_scale (of_real h) d) = np_scale (of_real h) (f x)"
    using krylov(5) by simp
  then have "mat_vec K (mat_vec A (np_scale (of_real h) d)) = np_scale (of_real h) (mat_vec K (f x))"
    by (simp add: mat_vec_scale_vec)
  then have "np_scale (of_real h) d = np_scale (of_real h) (mat_vec K (f x))"
    using inv[of "np_scale (of_real h) d"] krylov(2) by (simp add: np_scale_def)
  then have d: "d = mat_vec K (f x)"
    using h np_scale_cancel[of "of_real h" d "mat_vec K (f x)"] by simp
  have x2: "np_sub x d = Inr (newton_step K f x)"
    unfolding d by (simp add: np_sub_same_length newton_step_def length_mat_vec lenK lx)
  obtain e2 where e2: "norm_inf d = Inr e2"
    using norm_inf_nonempty[of d] krylov(2) n by auto
  have free_it: "cnewtonv_iteration f lgmres maxit tol h n x = Inr (newton_step K f x, e2)"
    using krylov(1) x2 e2 by (simp add: cnewtonv_iteration_def)
  show ?thesis using dense_it free_it by blast
qed

text \<open>
  An instance: \<open>f(z) = 2z - 4\<close> at \<open>x = 1\<close> with \<open>h = 1/2\<close>. The dense matrix is
  \<open>h\<cdot>A = [[1]]\<close> with \<open>b = -2\<close>, the Krylov update is \<open>d = -1\<close>, and both solvers move to
  \<open>x - f(x)/2 = 2\<close>, the root.
\<close>

theorem affine_newton_step_witness:
  "inverse_of 1 [[1/2]] [[2]] \<and>
   solve_small (mat_scale (1/2) [[2]]) (affine [[2]] [- 4] [1]) = Inr [- 2] \<and>
   mat_vec (mat_scale (1/2) [[2]]) [- 2] = affine [[2]] [- 4] [1] \<and>
   krylov_small (operator_at 1 (affine [[2]] [- 4]) (1/2) [1])
      (np_scale (of_real (1/2)) (affine [[2]] [- 4] [1])) [1] (1/10) 5 (1/10) = Inr ([- 1], 0) \<and>
   mv (affine [[2]] [- 4]) (1/2) [1] [- 1] = Inr [- 1] \<and>
   newton_step [[1/2]] (affine [[2]] [- 4]) [1] = [2] \<and>
   (\<exists>e1 e2.
      vector_iteration (affine [[2]] [- 4]) solve_small (1/2) 1 [1] [1] [[0]]
        = Inr ([2], e1, [[1]]) \<and>
      cnewtonv_iteration (affine [[2]] [- 4]) krylov_small 5 (1/10) (1/2) 1 [1] = Inr ([2], e2))"
proof -
  have A: "square 1 [[2]]" and J0: "square 1 [[0]]" by (simp_all add: square_def)
  have "mat_vec [[1/2]] (mat_vec [[2]] v) = v" if len: "length v = 1" for v
  proof -
    obtain a where "v = [a]" using len by (cases v) auto
    then show ?thesis by (simp add: mat_vec_def)
  qed
  then have K: "inverse_of 1 [[1/2]] [[2]]"
    by (simp add: inverse_of_def square_def)
  have fx: "affine [[2]] [- 4] [1] = [- 2]" by (simp add: affine_def mat_vec_def)
  have s: "solve_small (mat_scale (1/2) [[2]]) (affine [[2]] [- 4] [1]) = Inr [- 2]"
    by (simp add: fx mat_scale_def solve_small_def)
  have e: "mat_vec (mat_scale (1/2) [[2]]) [- 2] = affine [[2]] [- 4] [1]"
    by (simp add: fx mat_scale_def mat_vec_def)
  have m1: "mv (affine [[2]] [- 4]) (1/2) [1] [1] = Inr [1]"
    by (simp add: mv_def np_add_def np_binop_def np_scale_def np_imag_def affine_def mat_vec_def)
  have k: "krylov_small (operator_at 1 (affine [[2]] [- 4]) (1/2) [1])
      (np_scale (of_real (1/2)) (affine [[2]] [- 4] [1])) [1] (1/10) 5 (1/10) = Inr ([- 1], 0)"
    by (simp add: krylov_small_def operator_at_def m1 fx np_scale_def)
  have m: "mv (affine [[2]] [- 4]) (1/2) [1] [- 1] = Inr [- 1]"
    by (simp add: mv_def np_add_def np_binop_def np_scale_def np_imag_def affine_def mat_vec_def)
  have r: "map complex_of_real [- 1] = np_scale (of_real (1/2)) (affine [[2]] [- 4] [1])"
    by (simp add: fx np_scale_def)
  have nw: "newton_step [[1/2]] (affine [[2]] [- 4]) [1] = [2]"
    by (simp add: newton_step_def fx mat_vec_def)
  have x: "[1] = map complex_of_real [1]" by simp
  have c: "length [- 4 :: real] = 1" and xr: "length [1 :: real] = 1" and n: "(0::nat) < 1"
    and h: "(1/2 :: real) \<noteq> 0" and x0: "length [1 :: complex] = 1"
    and lb: "length [- 2 :: complex] = 1" and ld: "length [- 1 :: complex] = 1"
    and rd: "list_all (\<lambda>z. Im z = 0) [- 1 :: complex]"
    by simp_all
  note th = affine_newton_step[where f = "affine [[2]] [- 4]" and x = "[1]" and A = "[[2]]"
      and c = "[- 4]" and xr = "[1]" and n = 1 and h = "1/2" and K = "[[1/2]]"
      and ?J0.0 = "[[0]]" and ?x0.0 = "[1]" and solve = solve_small and b = "[- 2]"
      and lgmres = krylov_small and tol = "1/10" and maxit = 5 and d = "[- 1]" and info = 0
      and r = "[- 1]", OF A c xr n h K refl x J0 x0 s lb e k ld rd m r]
  show ?thesis using K s e k m nw th by (simp add: mat_scale_def)
qed

section \<open>The store: the caller's object is left alone\<close>

text \<open>
  The rules of \<open>frame\<close>: every primitive but \<open>h_put\<close> leaves the old objects alone, and
  \<open>h_put\<close> does when its target is not one of them; allocation returns a reference that
  is not one of them.
\<close>

lemma frame_return: "Q v \<Longrightarrow> frame L (h_return v) Q"
  by (simp add: frame_def h_return_def)

lemma frame_raise: "frame L (h_raise e) Q"
  by (simp add: frame_def h_raise_def)

lemma frame_lift: "frame L (h_lift r) (\<lambda>v. True)"
  by (simp add: frame_def h_lift_def)

lemma frame_new: "frame L (h_new v) (\<lambda>a. L \<le> a)"
  by (simp add: frame_def h_new_def)

lemma frame_get: "frame L (h_get a) (\<lambda>v. True)"
  by (simp add: frame_def h_get_def)

lemma frame_put: "L \<le> a \<Longrightarrow> frame L (h_put a v) (\<lambda>u. True)"
  by (simp add: frame_def h_put_def)

lemma frame_bind:
  assumes "frame L m Q" and "\<And>v. Q v \<Longrightarrow> frame L (k v) R"
  shows "frame L (h_bind m k) R"
  unfolding frame_def
proof (intro allI impI)
  fix H :: heap assume L: "L \<le> length H"
  obtain r H1 where m: "m H = (r, H1)" by (cases "m H")
  have m1: "length H \<le> length H1" "take L H1 = take L H" "\<forall>v. r = Inr v \<longrightarrow> Q v"
    using assms(1) L m by (auto simp: frame_def)
  show "length H \<le> length (snd (h_bind m k H)) \<and> take L (snd (h_bind m k H)) = take L H \<and>
        (\<forall>v. fst (h_bind m k H) = Inr v \<longrightarrow> R v)"
  proof (cases r)
    case (Inl e)
    then show ?thesis using m m1 by (simp add: h_bind_def)
  next
    case (Inr v)
    then have "frame L (k v) R" using m1 assms(2) by simp
    moreover have "L \<le> length H1" using L m1(1) by simp
    ultimately have "length H1 \<le> length (snd (k v H1))" "take L (snd (k v H1)) = take L H1"
      "\<forall>w. fst (k v H1) = Inr w \<longrightarrow> R w"
      unfolding frame_def by blast+
    then show ?thesis using m m1 Inr by (simp add: h_bind_def)
  qed
qed

lemma frame_weaken: "frame L m Q \<Longrightarrow> (\<And>v. Q v \<Longrightarrow> R v) \<Longrightarrow> frame L m R"
  by (simp add: frame_def)

lemma frame_array: "frame L (h_array a) (\<lambda>v. True)"
  unfolding h_array_def
  by (rule frame_bind[OF frame_get]) (auto intro: frame_return frame_raise split: obj.splits pyval.splits)

lemma frame_real_array: "frame L (h_real_array a) (\<lambda>v. True)"
  unfolding h_real_array_def
  by (rule frame_bind[OF frame_get]) (auto intro: frame_return frame_raise split: obj.splits)

lemma frame_matrix: "frame L (h_matrix a) (\<lambda>v. True)"
  unfolding h_matrix_def
  by (rule frame_bind[OF frame_get]) (auto intro: frame_return frame_raise split: obj.splits)

lemma frame_call: "frame L (h_call f a) (\<lambda>a. L \<le> a)"
  unfolding h_call_def
  by (rule frame_bind[OF frame_array]) (rule frame_new)

lemma frame_fill_column:
  "L \<le> aJ \<Longrightarrow> frame L (fill_column_h aJ j aF rows) (\<lambda>u. True)"
proof (induction rows)
  case Nil
  then show ?case by (simp add: frame_return)
next
  case (Cons i rows)
  show ?case
    unfolding fill_column_h.simps
    by (intro frame_bind[OF frame_real_array] frame_bind[OF frame_lift]
        frame_bind[OF frame_matrix] frame_bind[OF frame_put] Cons)
qed

lemma frame_jacobian_columns:
  "L \<le> aJ \<Longrightarrow> frame L (jacobian_columns_h f h ax n aJ cols) (\<lambda>u. True)"
proof (induction cols)
  case Nil
  then show ?case by (simp add: frame_return)
next
  case (Cons j cols)
  show ?case
    unfolding jacobian_columns_h.simps
    by (intro frame_bind[OF frame_array] frame_bind[OF frame_new] frame_bind[OF frame_lift]
        frame_bind[OF frame_put] frame_bind[OF frame_call] frame_bind[OF frame_fill_column]
        Cons)
qed

lemma frame_vector_iteration:
  "L \<le> aJ \<Longrightarrow> frame L (vector_iteration_h f solve h n ax ax0 aJ) (\<lambda>v. True)"
  unfolding vector_iteration_h_def
  by (intro frame_bind[OF frame_jacobian_columns] frame_bind[OF frame_call]
      frame_bind[OF frame_matrix] frame_bind[OF frame_array] frame_bind[OF frame_lift]
      frame_bind[OF frame_new] frame_return) simp_all

lemma frame_cnewtonv_iteration:
  "frame L (cnewtonv_iteration_h f lgmres maxit tol h n ax) (\<lambda>v. True)"
  unfolding cnewtonv_iteration_h_def split_def
  by (intro frame_bind[OF frame_call] frame_bind[OF frame_array] frame_bind[OF frame_lift]
      frame_bind[OF frame_new] frame_return) simp_all

lemma frame_vector_loop:
  "L \<le> aJ \<Longrightarrow> L \<le> length H \<Longrightarrow>
     length H \<le> length (snd (vector_loop_h f solve maxit tol h n ax ax0 aJ iters error H)) \<and>
     take L (snd (vector_loop_h f solve maxit tol h n ax ax0 aJ iters error H)) = take L H"
proof (induction f solve maxit tol h n ax ax0 aJ iters error H rule: vector_loop_h.induct)
  case (1 f solve maxit tol h n ax ax0 aJ iters error H)
  show ?case
  proof (cases "iters \<le> maxit \<and> tol \<le> error")
    case False
    then show ?thesis by (subst (1 2) vector_loop_h.simps) auto
  next
    case True
    obtain r H1 where it: "vector_iteration_h f solve h n ax ax0 aJ H = (r, H1)"
      by (cases "vector_iteration_h f solve h n ax ax0 aJ H")
    have H1: "length H \<le> length H1" "take L H1 = take L H"
      using frame_vector_iteration[OF "1.prems"(1), of f solve h n ax ax0] "1.prems"(2) it
      by (auto simp: frame_def)
    show ?thesis
    proof (cases r)
      case (Inl e)
      then show ?thesis using True it H1 by (subst (1 2) vector_loop_h.simps) simp
    next
      case (Inr p)
      obtain ax' ax0' error' where p: "p = (ax', ax0', error')" by (cases p)
      have "length H1 \<le> length (snd (vector_loop_h f solve maxit tol h n ax' ax0' aJ (iters + 1) error' H1)) \<and>
            take L (snd (vector_loop_h f solve maxit tol h n ax' ax0' aJ (iters + 1) error' H1)) = take L H1"
        using "1.IH"[OF True it[unfolded Inr p, symmetric] refl refl refl "1.prems"(1)]
          H1 "1.prems"(2) by simp
      then show ?thesis using True it Inr p H1
        by (subst (1 2) vector_loop_h.simps) simp
    qed
  qed
qed

lemma frame_cnewtonv_loop:
  "L \<le> length H \<Longrightarrow>
     length H \<le> length (snd (cnewtonv_loop_h f lgmres maxit tol h n ax iters error H)) \<and>
     take L (snd (cnewtonv_loop_h f lgmres maxit tol h n ax iters error H)) = take L H"
proof (induction f lgmres maxit tol h n ax iters error H rule: cnewtonv_loop_h.induct)
  case (1 f lgmres maxit tol h n ax iters error H)
  show ?case
  proof (cases "iters \<le> maxit \<and> tol \<le> error")
    case False
    then show ?thesis by (subst (1 2) cnewtonv_loop_h.simps) auto
  next
    case True
    obtain r H1 where it: "cnewtonv_iteration_h f lgmres maxit tol h n ax H = (r, H1)"
      by (cases "cnewtonv_iteration_h f lgmres maxit tol h n ax H")
    have H1: "length H \<le> length H1" "take L H1 = take L H"
      using frame_cnewtonv_iteration[of L f lgmres maxit tol h n ax] "1.prems" it
      by (auto simp: frame_def)
    show ?thesis
    proof (cases r)
      case (Inl e)
      then show ?thesis using True it H1 by (subst (1 2) cnewtonv_loop_h.simps) simp
    next
      case (Inr p)
      obtain ax' error' where p: "p = (ax', error')" by (cases p)
      have "length H1 \<le> length (snd (cnewtonv_loop_h f lgmres maxit tol h n ax' (iters + 1) error' H1)) \<and>
            take L (snd (cnewtonv_loop_h f lgmres maxit tol h n ax' (iters + 1) error' H1)) = take L H1"
        using "1.IH"[OF True it[unfolded Inr p, symmetric] refl refl] H1 "1.prems" by simp
      then show ?thesis using True it Inr p H1
        by (subst (1 2) cnewtonv_loop_h.simps) simp
    qed
  qed
qed

lemma frame_loop_vector:
  "L \<le> aJ \<Longrightarrow> frame L (vector_loop_h f solve maxit tol h n ax ax0 aJ iters error) (\<lambda>v. True)"
  by (simp add: frame_def frame_vector_loop)

lemma frame_loop_cnewtonv:
  "frame L (cnewtonv_loop_h f lgmres maxit tol h n ax iters error) (\<lambda>v. True)"
  by (simp add: frame_def frame_cnewtonv_loop)

lemma frame_cnewton_vector:
  "frame L (cnewton_vector_h f solve a0 maxit tol h) (\<lambda>v. True)"
  unfolding cnewton_vector_h_def
  by (intro frame_bind[OF frame_get] frame_bind[OF frame_lift] frame_bind[OF frame_new]
      frame_bind[OF frame_array] frame_bind[OF frame_call])
     (simp add: frame_raise frame_loop_vector)

lemma frame_cnewton: "frame L (cnewton_h fs fv solve a0 maxit tol h) (\<lambda>v. True)"
  unfolding cnewton_h_def split_def
  by (rule frame_bind[OF frame_get])
     (auto intro!: frame_bind[OF frame_lift] frame_bind[OF frame_cnewton_vector] frame_return
        frame_raise split: obj.splits)

lemma frame_cnewtonv: "frame L (cnewtonv_h f lgmres a0 maxit tol h) (\<lambda>v. True)"
  unfolding cnewtonv_h_def
  by (intro frame_bind[OF frame_get] frame_bind[OF frame_lift] frame_bind[OF frame_new]
      frame_bind[OF frame_array] frame_bind[OF frame_call])
     (simp add: frame_raise frame_loop_cnewtonv)


text \<open>
  The solvers on the store compute what the solvers on values compute: step by step, the
  objects behind the references of \<^verbatim>\<open>x\<close>, \<^verbatim>\<open>x0\<close> and \<^verbatim>\<open>J\<close> hold the values of
  the value model.
\<close>

lemma outcome_of_simps: "outcome_of (Inl e) = Inl e" "outcome_of (Inr v) = Inr ()"
  by (simp_all add: outcome_of_def)

lemma h_array_eq: "a < length H \<Longrightarrow> H ! a = Obj (NdArray x) \<Longrightarrow> h_array a H = (Inr x, H)"
  by (simp add: h_array_def h_bind_def h_get_def h_return_def)

lemma h_real_array_eq: "a < length H \<Longrightarrow> H ! a = RealArray x \<Longrightarrow> h_real_array a H = (Inr x, H)"
  by (simp add: h_real_array_def h_bind_def h_get_def h_return_def)

lemma h_matrix_eq: "a < length H \<Longrightarrow> H ! a = Matrix J \<Longrightarrow> h_matrix a H = (Inr J, H)"
  by (simp add: h_matrix_def h_bind_def h_get_def h_return_def)

lemma h_call_eq:
  "a < length H \<Longrightarrow> H ! a = Obj (NdArray x) \<Longrightarrow>
     h_call f a H = (Inr (length H), H @ [Obj (NdArray (f x))])"
  by (simp add: h_call_def h_bind_def h_array_eq h_new_def)

lemma fill_column_h_sim:
  assumes "aJ < length H" "aF < length H" "aJ \<noteq> aF" "H ! aJ = Matrix J" "H ! aF = RealArray F"
  shows "\<exists>J''. fill_column_h aJ j aF rows H
           = (outcome_of (fill_column J j F rows), H[aJ := Matrix J'']) \<and>
         (\<forall>J'. fill_column J j F rows = Inr J' \<longrightarrow> J'' = J')"
  using assms
proof (induction rows arbitrary: H J)
  case Nil
  have "H[aJ := Matrix J] = H" using Nil by (simp add: list_update_same_conv)
  then show ?case by (auto simp: h_return_def outcome_of_simps intro!: exI[of _ J])
next
  case (Cons i rows)
  have same: "H[aJ := Matrix J] = H" using Cons.prems by (simp add: list_update_same_conv)
  show ?case
  proof (cases "np_getitem F i")
    case (Inl e)
    then show ?thesis using Cons.prems same
      by (auto simp: h_bind_def h_real_array_eq h_lift_def outcome_of_simps intro!: exI[of _ J])
  next
    case v: (Inr v)
    show ?thesis
    proof (cases "mat_setitem J i j v")
      case (Inl e)
      then show ?thesis using Cons.prems same v
        by (auto simp: h_bind_def h_real_array_eq h_matrix_eq h_lift_def outcome_of_simps
            intro!: exI[of _ J])
    next
      case J1: (Inr J1)
      define H1 where "H1 = H[aJ := Matrix J1]"
      have pre: "aJ < length H1" "aF < length H1" "H1 ! aJ = Matrix J1" "H1 ! aF = RealArray F"
        using Cons.prems by (simp_all add: H1_def)
      from Cons.IH[OF pre(1,2) Cons.prems(3) pre(3,4)] obtain J'' where
        r: "fill_column_h aJ j aF rows H1
              = (outcome_of (fill_column J1 j F rows), H1[aJ := Matrix J''])"
        and u: "\<forall>J'. fill_column J1 j F rows = Inr J' \<longrightarrow> J'' = J'"
        by blast
      have "fill_column_h aJ j aF (i # rows) H = fill_column_h aJ j aF rows H1"
        using Cons.prems v J1
        by (simp add: h_bind_def h_real_array_eq h_matrix_eq h_lift_def h_put_def H1_def)
      then show ?thesis using r u v J1 by (auto simp: H1_def intro!: exI[of _ J''])
    qed
  qed
qed

lemma jacobian_columns_h_sim:
  assumes "ax < length H" "aJ < length H" "ax \<noteq> aJ" "H ! ax = Obj (NdArray x)"
    "H ! aJ = Matrix J"
  shows "\<exists>J'' extra. jacobian_columns_h f h ax n aJ cols H
           = (outcome_of (jacobian_columns f h x n J cols), H[aJ := Matrix J''] @ extra) \<and>
         (\<forall>J'. jacobian_columns f h x n J cols = Inr J' \<longrightarrow> J'' = J')"
  using assms
proof (induction cols arbitrary: H J)
  case Nil
  have "H[aJ := Matrix J] = H" using Nil by (simp add: list_update_same_conv)
  then show ?case
    by (auto simp: h_return_def outcome_of_simps intro!: exI[of _ J] exI[of _ "[]"])
next
  case (Cons j cols)
  have same: "H[aJ := Matrix J] = H" using Cons.prems by (simp add: list_update_same_conv)
  define xx where "xx = map (\<lambda>u. u + \<i> * 0) x"
  define H1 where "H1 = H @ [Obj (NdArray xx)]"
  have xxH1: "length H < length H1" "H1 ! length H = Obj (NdArray xx)"
    by (simp_all add: H1_def)
  have start: "jacobian_columns_h f h ax n aJ (j # cols) H =
      h_bind (h_lift (np_getitem x j)) (\<lambda>xj.
      h_bind (h_array (length H)) (\<lambda>xx.
      h_bind (h_lift (np_setitem xx j (xj + \<i> * of_real h))) (\<lambda>xx'.
      h_bind (h_put (length H) (Obj (NdArray xx'))) (\<lambda>u.
      h_bind (h_call f (length H)) (\<lambda>afx.
      h_bind (h_array afx) (\<lambda>fx.
      h_bind (h_new (RealArray (np_imag fx))) (\<lambda>aF.
      h_bind (fill_column_h aJ j aF [0..<n]) (\<lambda>u.
      jacobian_columns_h f h ax n aJ cols)))))))) H1"
    using Cons.prems
    by (simp add: h_bind_def h_array_eq h_new_def H1_def xx_def)
  show ?case
  proof (cases "np_getitem x j")
    case (Inl e)
    have "jacobian_columns_h f h ax n aJ (j # cols) H = (Inl e, H1)"
      unfolding start using Inl by (simp add: h_bind_def h_lift_def)
    then show ?thesis using Inl same
      by (auto simp: outcome_of_simps H1_def intro!: exI[of _ J] exI[of _ "[Obj (NdArray xx)]"])
  next
    case xj: (Inr xj)
    show ?thesis
    proof (cases "np_setitem xx j (xj + \<i> * of_real h)")
      case (Inl e)
      have "jacobian_columns_h f h ax n aJ (j # cols) H = (Inl e, H1)"
        unfolding start using xj Inl xxH1 by (simp add: h_bind_def h_lift_def h_array_eq)
      then show ?thesis using xj Inl same
        by (auto simp: outcome_of_simps H1_def xx_def Let_def
            intro!: exI[of _ J] exI[of _ "[Obj (NdArray xx)]"])
    next
      case xx': (Inr xx')
      define F where "F = np_imag (f xx')"
      define new where "new = [Obj (NdArray xx'), Obj (NdArray (f xx')), RealArray F]"
      define H4 where "H4 = H @ new"
      have mid: "jacobian_columns_h f h ax n aJ (j # cols) H =
          h_bind (fill_column_h aJ j (length H + 2) [0..<n])
            (\<lambda>u. jacobian_columns_h f h ax n aJ cols) H4"
        unfolding start using xj xx' xxH1
        by (simp add: h_bind_def h_lift_def h_array_eq h_put_def h_call_eq h_new_def
            H1_def H4_def new_def F_def nth_append)
      have pre: "aJ < length H4" "length H + 2 < length H4" "aJ \<noteq> length H + 2"
        "H4 ! aJ = Matrix J" "H4 ! (length H + 2) = RealArray F"
        using Cons.prems by (simp_all add: H4_def new_def nth_append)
      from fill_column_h_sim[OF pre, of j "[0..<n]"] obtain J1'' where
        fc: "fill_column_h aJ j (length H + 2) [0..<n] H4
               = (outcome_of (fill_column J j F [0..<n]), H4[aJ := Matrix J1''])"
        and fu: "\<forall>J'. fill_column J j F [0..<n] = Inr J' \<longrightarrow> J1'' = J'"
        by blast
      have upd: "H4[aJ := Matrix M] = H[aJ := Matrix M] @ new" for M
        using Cons.prems by (simp add: H4_def list_update_append)
      show ?thesis
      proof (cases "fill_column J j F [0..<n]")
        case (Inl e)
        have "jacobian_columns_h f h ax n aJ (j # cols) H = (Inl e, H[aJ := Matrix J1''] @ new)"
          unfolding mid using fc Inl by (simp add: h_bind_def outcome_of_simps upd)
        then show ?thesis using xj xx' Inl
          by (auto simp: outcome_of_simps xx_def F_def Let_def
              intro!: exI[of _ J1''] exI[of _ new])
      next
        case J1: (Inr J1)
        then have J1'': "J1'' = J1" using fu by simp
        define H5 where "H5 = H[aJ := Matrix J1] @ new"
        have pre5: "ax < length H5" "aJ < length H5" "H5 ! ax = Obj (NdArray x)"
          "H5 ! aJ = Matrix J1"
          using Cons.prems by (simp_all add: H5_def nth_append)
        from Cons.IH[OF pre5(1,2) Cons.prems(3) pre5(3,4)] obtain J'' extra where
          r: "jacobian_columns_h f h ax n aJ cols H5
                = (outcome_of (jacobian_columns f h x n J1 cols), H5[aJ := Matrix J''] @ extra)"
          and u: "\<forall>J'. jacobian_columns f h x n J1 cols = Inr J' \<longrightarrow> J'' = J'"
          by blast
        have H5upd: "H5[aJ := Matrix J''] @ extra = H[aJ := Matrix J''] @ (new @ extra)"
          using Cons.prems by (simp add: H5_def list_update_append)
        have "jacobian_columns_h f h ax n aJ (j # cols) H
                = (outcome_of (jacobian_columns f h x n J1 cols),
                   H[aJ := Matrix J''] @ (new @ extra))"
          unfolding mid using fc J1 J1'' r H5upd
          by (simp add: h_bind_def outcome_of_simps upd H5_def)
        then show ?thesis using xj xx' J1 u
          by (auto simp: xx_def F_def Let_def intro!: exI[of _ J''] exI[of _ "new @ extra"])
      qed
    qed
  qed
qed

lemma h_bind_lift:
  "h_bind (h_lift r) k H = (case r of Inl e \<Rightarrow> (Inl e, H) | Inr v \<Rightarrow> k v H)"
  by (simp add: h_bind_def h_lift_def split: sum.splits)

lemma h_bind_new: "h_bind (h_new v) k H = k (length H) (H @ [v])"
  by (simp add: h_bind_def h_new_def)

lemma h_bind_array:
  "a < length H \<Longrightarrow> H ! a = Obj (NdArray x) \<Longrightarrow> h_bind (h_array a) k H = k x H"
  by (simp add: h_bind_def h_array_eq)

lemma h_bind_matrix:
  "a < length H \<Longrightarrow> H ! a = Matrix J \<Longrightarrow> h_bind (h_matrix a) k H = k J H"
  by (simp add: h_bind_def h_matrix_eq)

lemma h_bind_call:
  "a < length H \<Longrightarrow> H ! a = Obj (NdArray x) \<Longrightarrow>
     h_bind (h_call f a) k H = k (length H) (H @ [Obj (NdArray (f x))])"
  by (simp add: h_bind_def h_call_eq)

lemma vector_iteration_h_sim:
  assumes "holds_state H ax ax0 aJ x x0 J"
  shows "(\<forall>e. vector_iteration f solve h n x x0 J = Inl e \<longrightarrow>
            fst (vector_iteration_h f solve h n ax ax0 aJ H) = Inl e) \<and>
         (\<forall>x' error' J'. vector_iteration f solve h n x x0 J = Inr (x', error', J') \<longrightarrow>
            (\<exists>ax' ax0' H'. vector_iteration_h f solve h n ax ax0 aJ H
                 = (Inr (ax', ax0', error'), H') \<and>
               holds_state H' ax' ax0' aJ x' x' J'))"
proof -
  have pre: "ax < length H" "aJ < length H" "ax \<noteq> aJ" "H ! ax = Obj (NdArray x)"
    "H ! aJ = Matrix J"
    using assms by (auto simp: holds_state_def)
  from jacobian_columns_h_sim[OF pre, of f h n "[0..<n]"] obtain J'' extra where
    jh: "jacobian_columns_h f h ax n aJ [0..<n] H
          = (outcome_of (jacobian_columns f h x n J [0..<n]), H[aJ := Matrix J''] @ extra)"
    and ju: "\<forall>J'. jacobian_columns f h x n J [0..<n] = Inr J' \<longrightarrow> J'' = J'"
    by blast
  show ?thesis
  proof (cases "jacobian_columns f h x n J [0..<n]")
    case (Inl e)
    then show ?thesis using jh
      by (simp add: vector_iteration_def vector_iteration_h_def h_bind_def outcome_of_simps)
  next
    case (Inr J')
    then have J'': "J'' = J'" using ju by simp
    define H1 where "H1 = H[aJ := Matrix J'] @ extra"
    have H1: "ax < length H1" "ax0 < length H1" "aJ < length H1"
      "H1 ! ax = Obj (NdArray x)" "H1 ! ax0 = Obj (NdArray x0)" "H1 ! aJ = Matrix J'"
      using assms by (auto simp: holds_state_def H1_def nth_append)
    have ne: "aJ \<noteq> ax" "aJ \<noteq> ax0" using assms by (auto simp: holds_state_def)
    have start: "vector_iteration_h f solve h n ax ax0 aJ H =
       h_bind (h_call f ax) (\<lambda>ab1.
       h_bind (h_matrix aJ) (\<lambda>J.
       h_bind (h_array ab1) (\<lambda>b1.
       h_bind (h_lift (solve J b1)) (\<lambda>b.
       h_bind (h_new (Obj (NdArray b))) (\<lambda>ab.
       h_bind (h_array ax) (\<lambda>x.
       h_bind (h_array ab) (\<lambda>b.
       h_bind (h_lift (np_sub x (np_scale (of_real h) b))) (\<lambda>x'.
       h_bind (h_new (Obj (NdArray x'))) (\<lambda>ax'.
       h_bind (h_array ax0) (\<lambda>x0.
       h_bind (h_lift (np_sub x' x0)) (\<lambda>xx2.
       h_bind (h_new (Obj (NdArray xx2))) (\<lambda>axx2.
       h_bind (h_array axx2) (\<lambda>xx2.
       h_bind (h_lift (norm_inf xx2)) (\<lambda>error'.
       h_bind (h_array ax') (\<lambda>x'.
       h_bind (h_new (Obj (NdArray x'))) (\<lambda>ax0'.
       h_return (ax', ax0', error'))))))))))))))))) H1"
      using jh Inr J'' by (simp add: vector_iteration_h_def h_bind_def outcome_of_simps H1_def)
    have run: "vector_iteration_h f solve h n ax ax0 aJ H =
       (case solve J' (f x) of
          Inl e \<Rightarrow> (Inl e, H1 @ [Obj (NdArray (f x))])
        | Inr b \<Rightarrow>
            (case np_sub x (np_scale (of_real h) b) of
               Inl e \<Rightarrow> (Inl e, H1 @ [Obj (NdArray (f x)), Obj (NdArray b)])
             | Inr x' \<Rightarrow>
                 (case np_sub x' x0 of
                    Inl e \<Rightarrow> (Inl e, H1 @ [Obj (NdArray (f x)), Obj (NdArray b), Obj (NdArray x')])
                  | Inr xx2 \<Rightarrow>
                      (case norm_inf xx2 of
                         Inl e \<Rightarrow>
                           (Inl e, H1 @ [Obj (NdArray (f x)), Obj (NdArray b), Obj (NdArray x'),
                                         Obj (NdArray xx2)])
                       | Inr error' \<Rightarrow>
                           (Inr (length H1 + 2, length H1 + 4, error'),
                            H1 @ [Obj (NdArray (f x)), Obj (NdArray b), Obj (NdArray x'),
                                  Obj (NdArray xx2), Obj (NdArray x')])))))"
      unfolding start using H1
      by (simp add: h_bind_call h_bind_matrix h_bind_array h_bind_lift h_bind_new h_return_def
          nth_append split: sum.splits)
    show ?thesis
      unfolding run using Inr H1 ne
      by (auto simp: vector_iteration_def holds_state_def nth_append split: sum.splits)
  qed
qed

lemma vector_loop_h_sim:
  "holds_state H ax ax0 aJ x x0 J \<Longrightarrow>
     result_value (vector_loop_h f solve maxit tol h n ax ax0 aJ iters error H)
       = fst (vector_loop f solve maxit tol h n x x0 J iters error)"
proof (induction f solve maxit tol h n x x0 J iters error arbitrary: H ax ax0
       rule: vector_loop.induct)
  case (1 f solve maxit tol h n x x0 J iters error)
  note sim = vector_iteration_h_sim[OF "1.prems", of f solve h n]
  show ?case
  proof (cases "iters \<le> maxit \<and> tol \<le> error")
    case False
    then show ?thesis using "1.prems"
      by (subst vector_loop_h.simps, subst vector_loop.simps)
         (auto simp: result_value_def holds_state_def h_array_eq)
  next
    case True
    show ?thesis
    proof (cases "vector_iteration f solve h n x x0 J")
      case (Inl e)
      then have "fst (vector_iteration_h f solve h n ax ax0 aJ H) = Inl e" using sim by simp
      then show ?thesis using True Inl
        by (subst vector_loop_h.simps, subst vector_loop.simps)
           (auto simp: result_value_def split: prod.splits)
    next
      case (Inr p)
      obtain x' error' J' where p: "p = (x', error', J')" by (cases p)
      from sim Inr p obtain ax' ax0' H' where
        it: "vector_iteration_h f solve h n ax ax0 aJ H = (Inr (ax', ax0', error'), H')"
        and st: "holds_state H' ax' ax0' aJ x' x' J'"
        by blast
      have "result_value (vector_loop_h f solve maxit tol h n ax' ax0' aJ (iters + 1) error' H')
              = fst (vector_loop f solve maxit tol h n x' x' J' (iters + 1) error')"
        using "1.IH"[OF True Inr[unfolded p] refl refl st] .
      then show ?thesis using True Inr p it
        by (subst vector_loop_h.simps, subst vector_loop.simps) simp
    qed
  qed
qed

lemma cnewton_vector_h_sim:
  assumes "a0 < length H" and "H ! a0 = Obj p"
  shows "result_value (cnewton_vector_h f solve a0 maxit tol h H)
           = fst (cnewton_vector f solve p maxit tol h)"
proof (cases "py_list p")
  case (Inl e)
  then show ?thesis using assms
    by (simp add: cnewton_vector_h_def cnewton_vector_def h_bind_def h_get_def h_lift_def
        result_value_def)
next
  case (Inr l)
  define n where "n = length l"
  define H4 where "H4 = H @ [Obj (NdArray l), Obj (NdArray l), Matrix (np_zeros2 n n),
                           Obj (NdArray (f l))]"
  have run: "cnewton_vector_h f solve a0 maxit tol h H =
      (if length (f l) \<noteq> n then (Inl NameError, H4)
       else vector_loop_h f solve maxit tol h n (length H + 1) (length H) (length H + 2) 0 1 H4)"
    using assms Inr
    by (simp add: cnewton_vector_h_def h_bind_lift h_bind_new h_bind_array h_bind_call
        h_bind_def[of "h_get a0"] h_get_def h_raise_def nth_append n_def H4_def)
  have st: "holds_state H4 (length H + 1) (length H) (length H + 2) l l (np_zeros2 n n)"
    by (simp add: holds_state_def H4_def nth_append)
  show ?thesis
    unfolding run using Inr vector_loop_h_sim[OF st, of f solve maxit tol h n 0 1]
    by (simp add: cnewton_vector_def result_value_def n_def Let_def)
qed

lemma cnewtonv_iteration_h_sim:
  assumes "ax < length H" and "H ! ax = Obj (NdArray x)"
  shows "(\<forall>e. cnewtonv_iteration f lgmres maxit tol h n x = Inl e \<longrightarrow>
            fst (cnewtonv_iteration_h f lgmres maxit tol h n ax H) = Inl e) \<and>
         (\<forall>x' error'. cnewtonv_iteration f lgmres maxit tol h n x = Inr (x', error') \<longrightarrow>
            (\<exists>ax' H'. cnewtonv_iteration_h f lgmres maxit tol h n ax H = (Inr (ax', error'), H') \<and>
               ax' < length H' \<and> H' ! ax' = Obj (NdArray x')))"
  using assms
  by (auto simp: cnewtonv_iteration_def cnewtonv_iteration_h_def h_bind_call h_bind_array
      h_bind_lift h_bind_new h_return_def nth_append Let_def split: sum.splits)

lemma cnewtonv_loop_h_sim:
  "ax < length H \<Longrightarrow> H ! ax = Obj (NdArray x) \<Longrightarrow>
     result_value (cnewtonv_loop_h f lgmres maxit tol h n ax iters error H)
       = fst (cnewtonv_loop f lgmres maxit tol h n x iters error)"
proof (induction f lgmres maxit tol h n x iters error arbitrary: H ax
       rule: cnewtonv_loop.induct)
  case (1 f lgmres maxit tol h n x iters error)
  note sim = cnewtonv_iteration_h_sim[OF "1.prems", of f lgmres maxit tol h n]
  show ?case
  proof (cases "iters \<le> maxit \<and> tol \<le> error")
    case False
    then show ?thesis using "1.prems"
      by (subst cnewtonv_loop_h.simps, subst cnewtonv_loop.simps)
         (auto simp: result_value_def h_array_eq)
  next
    case True
    show ?thesis
    proof (cases "cnewtonv_iteration f lgmres maxit tol h n x")
      case (Inl e)
      then have "fst (cnewtonv_iteration_h f lgmres maxit tol h n ax H) = Inl e"
        using sim by simp
      then show ?thesis using True Inl
        by (subst cnewtonv_loop_h.simps, subst cnewtonv_loop.simps)
           (auto simp: result_value_def split: prod.splits)
    next
      case (Inr p)
      obtain x' error' where p: "p = (x', error')" by (cases p)
      from sim Inr p obtain ax' H' where
        it: "cnewtonv_iteration_h f lgmres maxit tol h n ax H = (Inr (ax', error'), H')"
        and st: "ax' < length H'" "H' ! ax' = Obj (NdArray x')"
        by blast
      have "result_value (cnewtonv_loop_h f lgmres maxit tol h n ax' (iters + 1) error' H')
              = fst (cnewtonv_loop f lgmres maxit tol h n x' (iters + 1) error')"
        using "1.IH"[OF True Inr[unfolded p] refl st] .
      then show ?thesis using True Inr p it
        by (subst cnewtonv_loop_h.simps, subst cnewtonv_loop.simps) simp
    qed
  qed
qed

lemma cnewtonv_h_sim:
  assumes "a0 < length H" and "H ! a0 = Obj p"
  shows "result_value (cnewtonv_h f lgmres a0 maxit tol h H)
           = fst (cnewtonv f lgmres p maxit tol h)"
proof (cases "py_list p")
  case (Inl e)
  then show ?thesis using assms
    by (simp add: cnewtonv_h_def cnewtonv_def h_bind_def h_get_def h_lift_def result_value_def)
next
  case (Inr l)
  define n where "n = length l"
  define H2 where "H2 = H @ [Obj (NdArray l), Obj (NdArray l)]"
  define H3 where "H3 = H2 @ [Obj (NdArray (f l))]"
  have run: "cnewtonv_h f lgmres a0 maxit tol h H =
      (case LinearOperator (n, n) (mv f h l) of
         Inl e \<Rightarrow> (Inl e, H2)
       | Inr A \<Rightarrow>
           if length (f l) \<noteq> n then (Inl NameError, H3)
           else cnewtonv_loop_h f lgmres maxit tol h n (length H + 1) 0 1 H3)"
    using assms Inr
    by (simp add: cnewtonv_h_def h_bind_lift h_bind_new h_bind_array h_bind_call
        h_bind_def[of "h_get a0"] h_get_def h_raise_def nth_append n_def H2_def H3_def
        split: sum.splits)
  have st: "length H + 1 < length H3" "H3 ! (length H + 1) = Obj (NdArray l)"
    by (simp_all add: H3_def H2_def nth_append)
  show ?thesis
    unfolding run using Inr cnewtonv_loop_h_sim[OF st, of f lgmres maxit tol h n 0 1]
    by (simp add: cnewtonv_def result_value_def n_def Let_def split: sum.splits)
qed

lemma cnewton_h_sim:
  assumes "a0 < length H" and "H ! a0 = Obj p"
  shows "result_solution (cnewton_h fs fv solve a0 maxit tol h H)
           = fst (cnewton fs fv solve p maxit tol h)"
proof (cases "py_type p = T_float \<or> py_type p = T_int")
  case True
  then obtain r where r: "py_float p = Inr r" using py_float_scalar by blast
  show ?thesis using assms True r
    by (cases "scalar_loop fs maxit tol h (complex_of_real r) (complex_of_real r) 0 1")
       (auto simp: cnewton_h_def cnewton_def h_bind_lift h_bind_def[of "h_get a0"] h_get_def
          h_return_def result_solution_def map_run_def split: sum.splits)
next
  case False
  obtain o1 H1 where run: "cnewton_vector_h fv solve a0 maxit tol h H = (o1, H1)"
    by (cases "cnewton_vector_h fv solve a0 maxit tol h H")
  have "result_value (o1, H1) = fst (cnewton_vector fv solve p maxit tol h)"
    using cnewton_vector_h_sim[OF assms, of fv solve maxit tol h] run by simp
  then show ?thesis using assms False run
    by (cases "cnewton_vector fv solve p maxit tol h")
       (auto simp: cnewton_h_def cnewton_def h_bind_def h_get_def h_return_def
          result_solution_def result_value_def map_run_def split: sum.splits prod.splits)
qed

text \<open>Concrete runs on the store.\<close>

lemmas store_defs =
  cnewton_h_def cnewton_vector_h_def cnewtonv_h_def vector_iteration_h_def
  cnewtonv_iteration_h_def h_bind_def h_return_def h_raise_def h_lift_def h_new_def h_get_def
  h_put_def h_array_def h_real_array_def h_matrix_def h_call_def
  vector_loop_h.simps cnewtonv_loop_h.simps

lemma store_run_dense:
  "cnewton_h fs (map (\<lambda>z. z * z - 2)) solve_small 0 0 (1/10) 1 [Obj (NdArray [1])] =
     (Inr (ArrayRef 10, 1, 1/2),
      [Obj (NdArray [1]), Obj (NdArray [1]), Obj (NdArray [1]), Matrix [[2]],
       Obj (NdArray [- 1]), Obj (NdArray [1 + \<i>]), Obj (NdArray [- 2 + 2 * \<i>]), RealArray [2],
       Obj (NdArray [- 1]), Obj (NdArray [- 1 / 2]), Obj (NdArray [3 / 2]),
       Obj (NdArray [1 / 2]), Obj (NdArray [3 / 2])])"
  by (simp add: store_defs eval_defs complex_eq_iff)

lemma store_run_free:
  "cnewtonv_h (map (\<lambda>z. z * z - 2)) krylov_small 0 0 (1/10) 1 [Obj (PyList [1])] =
     (Inr (7, 1, 1/2),
      [Obj (PyList [1]), Obj (NdArray [1]), Obj (NdArray [1]), Obj (NdArray [- 1]),
       Obj (NdArray [- 1]), Obj (NdArray [- 1]), Obj (NdArray [- 1 / 2]), Obj (NdArray [3 / 2])])"
  by (simp add: store_defs eval_defs complex_eq_iff)

text \<open>
  Claim C9. A call of \<^verbatim>\<open>cnewton\<close> or of \<^verbatim>\<open>cnewtonv\<close> with a reference to an object of
  the caller (a list or an array in particular) leaves that object, and every other
  object that existed before the call, unchanged, whether the call returns or raises: the
  solver only reads the object, for the test on its type and for
  \<^verbatim>\<open>np.array(list(x0))\<close>, which copies its elements; it writes only into the
  array \<^verbatim>\<open>xx\<close> and the matrix \<^verbatim>\<open>J\<close>, both allocated during the call; every other
  assignment binds a local name to a new object. The call computes what the solver
  computes on values.
\<close>

theorem caller_object_unchanged:
  assumes "a0 < length H" and "H ! a0 = Obj p"
  shows "snd (cnewton_h fs fv solve a0 maxit tol h H) ! a0 = Obj p \<and>
         take (length H) (snd (cnewton_h fs fv solve a0 maxit tol h H)) = H \<and>
         result_solution (cnewton_h fs fv solve a0 maxit tol h H)
           = fst (cnewton fs fv solve p maxit tol h) \<and>
         snd (cnewtonv_h f lgmres a0 maxit tol h H) ! a0 = Obj p \<and>
         take (length H) (snd (cnewtonv_h f lgmres a0 maxit tol h H)) = H \<and>
         result_value (cnewtonv_h f lgmres a0 maxit tol h H)
           = fst (cnewtonv f lgmres p maxit tol h)"
proof -
  have a: "take (length H) (snd (cnewton_h fs fv solve a0 maxit tol h H)) = H"
    using frame_cnewton[of "length H" fs fv solve a0 maxit tol h] by (simp add: frame_def)
  have b: "take (length H) (snd (cnewtonv_h f lgmres a0 maxit tol h H)) = H"
    using frame_cnewtonv[of "length H" f lgmres a0 maxit tol h] by (simp add: frame_def)
  have "snd (cnewton_h fs fv solve a0 maxit tol h H) ! a0
        = take (length H) (snd (cnewton_h fs fv solve a0 maxit tol h H)) ! a0"
    using assms(1) by simp
  then have c: "snd (cnewton_h fs fv solve a0 maxit tol h H) ! a0 = Obj p"
    using a assms(2) by simp
  have "snd (cnewtonv_h f lgmres a0 maxit tol h H) ! a0
        = take (length H) (snd (cnewtonv_h f lgmres a0 maxit tol h H)) ! a0"
    using assms(1) by simp
  then have d: "snd (cnewtonv_h f lgmres a0 maxit tol h H) ! a0 = Obj p"
    using b assms(2) by simp
  show ?thesis
    using a b c d cnewton_h_sim[OF assms] cnewtonv_h_sim[OF assms] by simp
qed

text \<open>
  An instance: the dense solver called with a reference to the array \<open>[1]\<close>, object \<open>0\<close> of
  the store. The call allocates twelve objects, writes into two of them (the matrix at
  reference \<open>3\<close>, which was allocated as zeros and holds \<open>[[2]]\<close> at the end, and the array
  at reference \<open>5\<close>) and returns reference \<open>10\<close>; object \<open>0\<close> is as it was.
\<close>

theorem caller_object_unchanged_witness:
  "(0::nat) < length [Obj (NdArray [1])] \<and> [Obj (NdArray [1])] ! 0 = Obj (NdArray [1]) \<and>
   cnewton_h (\<lambda>z. z * z - 2) (map (\<lambda>z. z * z - 2)) solve_small 0 0 (1/10) 1 [Obj (NdArray [1])] =
     (Inr (ArrayRef 10, 1, 1/2),
      [Obj (NdArray [1]), Obj (NdArray [1]), Obj (NdArray [1]), Matrix [[2]],
       Obj (NdArray [- 1]), Obj (NdArray [1 + \<i>]), Obj (NdArray [- 2 + 2 * \<i>]), RealArray [2],
       Obj (NdArray [- 1]), Obj (NdArray [- 1 / 2]), Obj (NdArray [3 / 2]),
       Obj (NdArray [1 / 2]), Obj (NdArray [3 / 2])]) \<and>
   snd (cnewton_h (\<lambda>z. z * z - 2) (map (\<lambda>z. z * z - 2)) solve_small 0 0 (1/10) 1
          [Obj (NdArray [1])]) ! 0 = Obj (NdArray [1]) \<and>
   result_solution (cnewton_h (\<lambda>z. z * z - 2) (map (\<lambda>z. z * z - 2)) solve_small 0 0 (1/10) 1
          [Obj (NdArray [1])]) = Inr (Vector [3/2], 1, 1/2) \<and>
   snd (cnewtonv_h (map (\<lambda>z. z * z - 2)) krylov_small 0 0 (1/10) 1 [Obj (PyList [1])]) ! 0
     = Obj (PyList [1]) \<and>
   result_value (cnewtonv_h (map (\<lambda>z. z * z - 2)) krylov_small 0 0 (1/10) 1 [Obj (PyList [1])])
     = Inr ([3/2], 1, 1/2)"
proof -
  have l: "(0::nat) < length [Obj (NdArray [1])]" "(0::nat) < length [Obj (PyList [1])]"
    and o: "[Obj (NdArray [1])] ! 0 = Obj (NdArray [1])" "[Obj (PyList [1])] ! 0 = Obj (PyList [1])"
    by simp_all
  note dense = caller_object_unchanged[OF l(1) o(1), where fs = "\<lambda>z. z * z - 2"
      and fv = "map (\<lambda>z. z * z - 2)" and solve = solve_small and maxit = 0 and tol = "1/10"
      and h = 1]
  note free = caller_object_unchanged[OF l(2) o(2), where f = "map (\<lambda>z. z * z - 2)"
      and lgmres = krylov_small and maxit = 0 and tol = "1/10" and h = 1]
  have v: "fst (cnewton (\<lambda>z. z * z - 2) (map (\<lambda>z. z * z - 2)) solve_small (NdArray [1]) 0 (1/10) 1)
      = Inr (Vector [3/2], 1, 1/2)"
    by (simp add: run_vector_capped)
  have w: "fst (cnewtonv (map (\<lambda>z. z * z - 2)) krylov_small (PyList [1]) 0 (1/10) 1)
      = Inr ([3/2], 1, 1/2)"
    by (simp add: run_free_capped)
  show ?thesis
    using l o dense free v w store_run_dense[of "\<lambda>z. z * z - 2"] by metis
qed

end
